theory Spec2Isabelle
  imports Main "HOL-Library.Sublist"
begin

section \<open>Byte strings: the functions of Go's \<open>strings\<close> package the plugin calls\<close>

text \<open>
  A Go \<open>string\<close> is a sequence of bytes; it is modelled as \<^typ>\<open>string\<close>, a list of
  8-bit characters.
\<close>

definition HasPrefix :: "string \<Rightarrow> string \<Rightarrow> bool" where
  "HasPrefix s p = (length p \<le> length s \<and> take (length p) s = p)"

definition HasSuffix :: "string \<Rightarrow> string \<Rightarrow> bool" where
  "HasSuffix s x = (length x \<le> length s \<and> drop (length s - length x) s = x)"

fun Contains :: "string \<Rightarrow> string \<Rightarrow> bool" where
  "Contains [] sub = (sub = [])"
| "Contains (c # cs) sub = (HasPrefix (c # cs) sub \<or> Contains cs sub)"

text \<open>
  \<open>strings.ReplaceAll(s, old, new)\<close> for a non-empty \<open>old\<close>: the non-overlapping
  occurrences of \<open>old\<close> are replaced from the left. (With an empty \<open>old\<close> Go inserts
  \<open>new\<close> around every code point; the plugin never calls it so, and here \<open>s\<close> comes
  back unchanged.)
\<close>

function ReplaceAll :: "string \<Rightarrow> string \<Rightarrow> string \<Rightarrow> string" where
  "ReplaceAll s old new =
     (if s = [] then []
      else if old \<noteq> [] \<and> HasPrefix s old then new @ ReplaceAll (drop (length old) s) old new
      else hd s # ReplaceAll (tl s) old new)"
  by pat_completeness auto
termination
  by (relation "measure (\<lambda>(s, old, new). length s)") auto

declare ReplaceAll.simps [simp del]

text \<open>
  \<open>strings.ToLower\<close> on the ASCII letters. On other code points Go applies the Unicode
  lower-case mapping, which yields none of the bytes of \<open>.yaml\<close> or \<open>.yml\<close>, the only
  strings its result is compared with here.
\<close>

definition isUpper :: "char \<Rightarrow> bool" where
  "isUpper c = (65 \<le> (of_char c :: nat) \<and> (of_char c :: nat) \<le> 90)"

definition toLowerByte :: "char \<Rightarrow> char" where
  "toLowerByte c = (if isUpper c then char_of ((of_char c :: nat) + 32) else c)"

definition ToLower :: "string \<Rightarrow> string" where
  "ToLower s = map toLowerByte s"

section \<open>Paths (package \<open>path/filepath\<close>, with \<open>/\<close> as the separator)\<close>

definition isSep :: "char \<Rightarrow> bool" where
  "isSep c = (c = CHR ''/'')"

text \<open>\<open>filepath.Base\<close>: the last element of the path, trailing separators removed.\<close>

definition Base :: "string \<Rightarrow> string" where
  "Base path =
     (if path = [] then ''.''
      else let stripped = rev (dropWhile isSep (rev path));
               elem = rev (takeWhile (\<lambda>c. \<not> isSep c) (rev stripped))
           in if elem = [] then ''/'' else elem)"

text \<open>\<open>filepath.Ext\<close>: the suffix of the last element that begins at its last dot.\<close>

definition Ext :: "string \<Rightarrow> string" where
  "Ext path =
     (let elem = rev (takeWhile (\<lambda>c. \<not> isSep c) (rev path))
      in if CHR ''.'' \<in> set elem
         then CHR ''.'' # rev (takeWhile (\<lambda>c. c \<noteq> CHR ''.'') (rev elem))
         else [])"

text \<open>
  \<open>filepath.Join(dir, name)\<close> for the paths \<open>Walk\<close> builds. Go also cleans the result
  (\<open>./a\<close> becomes \<open>a\<close>, \<open>d//a\<close> becomes \<open>d/a\<close>), which changes neither its last element
  nor that it differs from the root path it extends.
\<close>

definition Join :: "string \<Rightarrow> string \<Rightarrow> string" where
  "Join dir name = dir @ ''/'' @ name"

section \<open>Decimal formatting\<close>

definition digit :: "nat \<Rightarrow> char" where
  "digit d = ''0123456789'' ! d"

definition isDigit :: "char \<Rightarrow> bool" where
  "isDigit c = (48 \<le> (of_char c :: nat) \<and> (of_char c :: nat) \<le> 57)"

function showNat :: "nat \<Rightarrow> string" where
  "showNat n = (if n < 10 then [digit n] else showNat (n div 10) @ [digit (n mod 10)])"
  by pat_completeness auto
termination
  by (relation "measure id") auto

declare showNat.simps [simp del]

text \<open>\<open>appendInt\<close> of package \<open>time\<close>: at least \<open>width\<close> digits, zero-padded.\<close>

definition appendInt :: "nat \<Rightarrow> nat \<Rightarrow> string" where
  "appendInt x width = replicate (width - length (showNat x)) (CHR ''0'') @ showNat x"

section \<open>The clock and the offline identifier\<close>

text \<open>
  What \<open>time.Now()\<close> returns, as the fields of the local civil time that
  \<open>Format\<close> prints. Years are those of the common era.
\<close>

record gotime =
  Year :: nat
  Month :: nat
  Day :: nat
  Hour :: nat
  Minute :: nat
  Second :: nat
  Nanosecond :: nat

definition wellformed_time :: "gotime \<Rightarrow> bool" where
  "wellformed_time t =
     (Year t \<le> 9999 \<and> 1 \<le> Month t \<and> Month t \<le> 12 \<and> 1 \<le> Day t \<and> Day t \<le> 31 \<and>
      Hour t \<le> 23 \<and> Minute t \<le> 59 \<and> Second t \<le> 59 \<and> Nanosecond t \<le> 999999999)"

text \<open>\<open>t.Format("20060102150405")\<close>: year, month, day, hour (24h), minute, second.\<close>

definition Format_20060102150405 :: "gotime \<Rightarrow> string" where
  "Format_20060102150405 t =
     appendInt (Year t) 4 @ appendInt (Month t) 2 @ appendInt (Day t) 2 @
     appendInt (Hour t) 2 @ appendInt (Minute t) 2 @ appendInt (Second t) 2"

text \<open>Two instants lie in the same second when they differ in the nanoseconds only.\<close>

definition same_second :: "gotime \<Rightarrow> gotime \<Rightarrow> bool" where
  "same_second t u =
     (Year t = Year u \<and> Month t = Month u \<and> Day t = Day u \<and>
      Hour t = Hour u \<and> Minute t = Minute u \<and> Second t = Second u)"

text \<open>\<open>generateDummyID\<close> (cmd.go); the clock reading is its second argument.\<close>

definition generateDummyID :: "string \<Rightarrow> gotime \<Rightarrow> string" where
  "generateDummyID name now =
     (let timestamp = Format_20060102150405 now;
          safeName = ReplaceAll name '' '' ''-'';
          safeName = (if safeName = [] then ''design'' else safeName)
      in ''offline-mode-'' @ safeName @ ''-'' @ timestamp)"

section \<open>Errors (package \<open>errors\<close>) and panics\<close>

text \<open>
  The constructors of errors.go wrap their cause. \<open>SysError\<close> is an error value handed
  back by \<open>os\<close>, \<open>net/http\<close> or \<open>encoding/json\<close> (with its message), \<open>Errorf\<close> one built
  by \<open>fmt.Errorf\<close>, \<open>UnmarshalTypeError\<close> the one \<open>json.Unmarshal\<close> returns when the
  JSON value does not fit the Go type.
\<close>

datatype error =
    SysError string
  | Errorf string
  | UnmarshalTypeError string string
  | ErrDecodingAPI error
  | ErrHTTPPostRequest error
  | ErrUnexpectedResponseCode nat string
  | ErrCreatingMesheryDesign error
  | ErrInvalidEmailFormat string
  | ErrGeneratingSnapshot error
  | ErrReadingManifestFile error

text \<open>A call either returns or panics (with the run-time error's message).\<close>

datatype 'a outcome = Returns 'a | Panics string

section \<open>Decoded JSON: the values behind \<open>interface{}\<close>\<close>

text \<open>
  What \<open>json.Unmarshal\<close> stores in an \<open>interface{}\<close>: \<open>nil\<close>, \<open>bool\<close>, \<open>float64\<close>
  (kept as the number's literal), \<open>string\<close>, \<open>[]interface{}\<close> and
  \<open>map[string]interface{}\<close> (an association list with one pair for each key, read with
  \<open>map_of\<close>).
\<close>

datatype gvalue =
    GNil
  | GBool bool
  | GFloat64 string
  | GString string
  | GSlice "gvalue list"
  | GMap "(string \<times> gvalue) list"

fun typeName :: "gvalue \<Rightarrow> string" where
  "typeName GNil = ''nil''"
| "typeName (GBool b) = ''bool''"
| "typeName (GFloat64 x) = ''float64''"
| "typeName (GString x) = ''string''"
| "typeName (GSlice xs) = ''[]interface {}''"
| "typeName (GMap m) = ''map[string]interface {}''"

fun jsonKind :: "gvalue \<Rightarrow> string" where
  "jsonKind GNil = ''null''"
| "jsonKind (GBool b) = ''bool''"
| "jsonKind (GFloat64 x) = ''number''"
| "jsonKind (GString x) = ''string''"
| "jsonKind (GSlice xs) = ''array''"
| "jsonKind (GMap m) = ''object''"

text \<open>\<open>m[k]\<close> on a \<open>map[string]interface{}\<close>: \<open>nil\<close> for a missing key (and on a nil map).\<close>

definition index_map :: "(string \<times> gvalue) list \<Rightarrow> string \<Rightarrow> gvalue" where
  "index_map m k = (case map_of m k of None \<Rightarrow> GNil | Some v \<Rightarrow> v)"

text \<open>The comma-ok assertion \<open>v.(string)\<close>.\<close>

fun assertString :: "gvalue \<Rightarrow> string option" where
  "assertString (GString x) = Some x"
| "assertString v = None"

text \<open>
  \<open>json.Unmarshal(body, &responseData)\<close> with \<open>responseData\<close> a \<open>map[string]interface{}\<close>,
  and with a \<open>[]interface{}\<close>. The decoder of the JSON text is a parameter \<open>dec\<close>
  (\<open>Inl\<close> its syntax error). A JSON \<open>null\<close> is accepted by both and leaves the nil map
  or slice, which reads like the empty one.
\<close>

definition Unmarshal_map :: "(string \<Rightarrow> error + gvalue) \<Rightarrow> string \<Rightarrow> error + (string \<times> gvalue) list" where
  "Unmarshal_map dec body =
     (case dec body of
        Inl err \<Rightarrow> Inl err
      | Inr (GMap m) \<Rightarrow> Inr m
      | Inr GNil \<Rightarrow> Inr []
      | Inr v \<Rightarrow> Inl (UnmarshalTypeError (jsonKind v) ''map[string]interface {}''))"

definition Unmarshal_slice :: "(string \<Rightarrow> error + gvalue) \<Rightarrow> string \<Rightarrow> error + gvalue list" where
  "Unmarshal_slice dec body =
     (case dec body of
        Inl err \<Rightarrow> Inl err
      | Inr (GSlice xs) \<Rightarrow> Inr xs
      | Inr GNil \<Rightarrow> Inr []
      | Inr v \<Rightarrow> Inl (UnmarshalTypeError (jsonKind v) ''[]interface {}''))"

section \<open>\<open>base64.StdEncoding.EncodeToString\<close>\<close>

definition encodeStd :: string where
  "encodeStd = ''ABCDEFGHIJKLMNOPQRSTUVWXYZabcdefghijklmnopqrstuvwxyz0123456789+/''"

fun encode_bytes :: "nat list \<Rightarrow> string" where
  "encode_bytes (a # b # c # r) =
     [encodeStd ! (a div 4), encodeStd ! ((a mod 4) * 16 + b div 16),
      encodeStd ! ((b mod 16) * 4 + c div 64), encodeStd ! (c mod 64)] @ encode_bytes r"
| "encode_bytes [a, b] =
     [encodeStd ! (a div 4), encodeStd ! ((a mod 4) * 16 + b div 16),
      encodeStd ! ((b mod 16) * 4), CHR ''='']"
| "encode_bytes [a] =
     [encodeStd ! (a div 4), encodeStd ! ((a mod 4) * 16), CHR ''='', CHR ''='']"
| "encode_bytes [] = []"

definition EncodeToString :: "string \<Rightarrow> string" where
  "EncodeToString s = encode_bytes (map of_char s)"

section \<open>Package state and the outside world\<close>

record MesheryConfig =
  URL :: string
  SnapshotEndpoint :: string

record DefaultsConfig =
  SnapshotName :: string
  TimeoutSeconds :: int
  NotifyOnCompletion :: bool

record Config =
  Meshery :: MesheryConfig
  Defaults :: DefaultsConfig

text \<open>
  The package-level variables the modelled functions read; \<open>Config_var\<close> is the variable
  \<open>Config\<close>, a pointer that may be nil.
\<close>

record globals =
  ProviderToken :: string
  MesheryAPIBaseURL :: string
  Config_var :: "Config option"
  manifestPath :: string
  repoOwner :: string
  repoName :: string
  workflowID :: string

text \<open>
  The JSON bodies the plugin sends, before \<open>json.Marshal\<close> (which cannot fail on
  them: they hold strings and a boolean only, so the \<open>err != nil\<close> branch after each
  \<open>json.Marshal\<close> is dead and has no counterpart here).
  \<open>MesheryDesignPayload\<close>: save, manifest, name, email, pattern_source_type (cmd.go).
  \<open>MesheryDesignFilePayload\<close>: name, file, file_name, email, source_type (the struct of
  the same name in the second copy of the command file).
  \<open>WorkflowDispatch\<close>: ref, inputs.designID, inputs.assetLocation.
\<close>

datatype payload =
    MesheryDesignPayload bool string string string string
  | MesheryDesignFilePayload string string string string string
  | WorkflowDispatch string string string

record http_request =
  Method :: string
  ReqURL :: string
  Header :: "(string \<times> string) list"
  Body :: payload

text \<open>
  What one \<open>client.Do(req)\<close> and the reading of the response body come to:
  \<open>DoError\<close> when \<open>client.Do\<close> returns an error (no connection, or the time-out of the
  client before the response's header arrived: no response);
  \<open>BodyReadError\<close> when a response with a status code arrived and \<open>io.ReadAll\<close> failed
  after the bytes given (the time-out of the client covers the reading of the body too,
  and ends it with an error);
  \<open>Response\<close> with the status code and the whole body.
\<close>

datatype http_outcome =
    DoError error
  | BodyReadError nat string error
  | Response nat string

record world =
  Now :: gotime
  NewRequest :: "string \<Rightarrow> string \<Rightarrow> error option"
  Do :: "http_request \<Rightarrow> http_outcome"
  json_decode :: "string \<Rightarrow> error + gvalue"

section \<open>Submitting the design: \<open>CreateMesheryDesign\<close>\<close>

text \<open>
  The block both copies of \<open>CreateMesheryDesign\<close> share (cmd.go lines 256 to 294): parse
  the body as an object, else as an array, and probe for the identifier. \<open>designID\<close>
  starts empty, so \<open>Probed []\<close> stands for "nothing found". The second probe,
  \<open>responseData["pattern_file"].(map[string]interface{})["id"].(string)\<close>, has a
  comma-ok on its outer assertion only: the inner one panics unless \<open>pattern_file\<close>
  holds an object.
\<close>

datatype probe = ParseFailed error | ProbePanics string | Probed string

definition probeDesignID :: "(string \<Rightarrow> error + gvalue) \<Rightarrow> string \<Rightarrow> probe" where
  "probeDesignID dec body =
     (case Unmarshal_map dec body of
        Inl err0 \<Rightarrow>
          (case Unmarshal_slice dec body of
             Inl err \<Rightarrow> ParseFailed err
           | Inr responseArray \<Rightarrow>
               (if length responseArray > 0 then
                  (case hd responseArray of
                     GMap firstItem \<Rightarrow>
                       (case assertString (index_map firstItem ''id'') of
                          Some ident \<Rightarrow> Probed ident
                        | None \<Rightarrow> Probed [])
                   | _ \<Rightarrow> Probed [])
                else Probed []))
      | Inr responseData \<Rightarrow>
          (case assertString (index_map responseData ''id'') of
             Some ident \<Rightarrow> Probed ident
           | None \<Rightarrow>
               (case index_map responseData ''pattern_file'' of
                  GMap pattern_file \<Rightarrow>
                    (case assertString (index_map pattern_file ''id'') of
                       Some ident \<Rightarrow> Probed ident
                     | None \<Rightarrow>
                         (case assertString (index_map responseData ''pattern_id'') of
                            Some ident \<Rightarrow> Probed ident
                          | None \<Rightarrow> Probed []))
                | v \<Rightarrow>
                    ProbePanics (''interface conversion: interface {} is '' @ typeName v
                                 @ '', not map[string]interface {}''))))"

text \<open>The endpoint: the configured one when there is one, else the default given.\<close>

definition endpoint_of :: "globals \<Rightarrow> string \<Rightarrow> string" where
  "endpoint_of g dflt =
     (case Config_var g of
        None \<Rightarrow> dflt
      | Some c \<Rightarrow> if SnapshotEndpoint (Meshery c) \<noteq> [] then SnapshotEndpoint (Meshery c) else dflt)"

definition submit_headers :: "globals \<Rightarrow> (string \<times> string) list" where
  "submit_headers g =
     (''Content-Type'', ''application/json'')
     # (if ProviderToken g \<noteq> []
        then [(''Cookie'', ''token='' @ ProviderToken g @ '';meshery-provider=Meshery'')]
        else [])"

text \<open>The POST request both copies build, for the payload given.\<close>

definition submit_request :: "globals \<Rightarrow> payload \<Rightarrow> http_request" where
  "submit_request g payload =
     (let endpoint = endpoint_of g ''/api/pattern/import'';
          fullURL = MesheryAPIBaseURL g @ endpoint
      in \<lparr>Method = ''POST'', ReqURL = fullURL, Header = submit_headers g, Body = payload\<rparr>)"

text \<open>
  The request of cmd.go (the manifest as it is, \<open>save\<close> set) and the request of the
  second copy (the manifest base64-encoded, under the last element of \<open>manifestPath\<close>).
\<close>

definition design_request :: "globals \<Rightarrow> string \<Rightarrow> string \<Rightarrow> string \<Rightarrow> http_request" where
  "design_request g manifest name email =
     (let payload = MesheryDesignPayload True manifest name email ''Kubernetes Manifest''
      in submit_request g payload)"

definition design_request_strict :: "globals \<Rightarrow> string \<Rightarrow> string \<Rightarrow> string \<Rightarrow> http_request" where
  "design_request_strict g manifest name email =
     (let fileName = Base (manifestPath g);
          encodedManifest = EncodeToString manifest;
          payload = MesheryDesignFilePayload name encodedManifest fileName email
                      ''Kubernetes Manifest''
      in submit_request g payload)"

text \<open>
  \<open>CreateMesheryDesign\<close> of cmd.go, the lenient copy: every failure after the request
  was built, but for a failed read of the body, yields an offline identifier.
\<close>

definition CreateMesheryDesign ::
  "globals \<Rightarrow> world \<Rightarrow> string \<Rightarrow> string \<Rightarrow> string \<Rightarrow> (error + string) outcome" where
  "CreateMesheryDesign g w manifest name email =
     (let req = design_request g manifest name email
      in case NewRequest w (Method req) (ReqURL req) of
           Some err \<Rightarrow> Returns (Inl (ErrHTTPPostRequest err))
         | None \<Rightarrow>
             (case Do w req of
                   DoError err \<Rightarrow> Returns (Inr (generateDummyID name (Now w)))
                 | BodyReadError status part err \<Rightarrow> Returns (Inl (ErrHTTPPostRequest err))
                 | Response status body \<Rightarrow>
                     if Contains body ''<!DOCTYPE html>'' \<or> Contains body ''<html''
                     then Returns (Inr (generateDummyID name (Now w)))
                     else if status \<noteq> 200 \<and> status \<noteq> 201
                     then Returns (Inr (generateDummyID name (Now w)))
                     else (case probeDesignID (json_decode w) body of
                             ParseFailed err \<Rightarrow> Returns (Inr (generateDummyID name (Now w)))
                           | ProbePanics msg \<Rightarrow> Panics msg
                           | Probed designID \<Rightarrow>
                               if designID = []
                               then Returns (Inr (generateDummyID name (Now w)))
                               else Returns (Inr designID))))"

text \<open>
  \<open>CreateMesheryDesign\<close> of the second copy of the command file, the strict one: the
  manifest goes out base64-encoded under the file name of \<open>manifestPath\<close>, and every
  failure is an error.
\<close>

definition CreateMesheryDesign_strict ::
  "globals \<Rightarrow> world \<Rightarrow> string \<Rightarrow> string \<Rightarrow> string \<Rightarrow> (error + string) outcome" where
  "CreateMesheryDesign_strict g w manifest name email =
     (let req = design_request_strict g manifest name email
      in case NewRequest w (Method req) (ReqURL req) of
           Some err \<Rightarrow> Returns (Inl (ErrHTTPPostRequest err))
         | None \<Rightarrow>
             (case Do w req of
                   DoError err \<Rightarrow> Returns (Inl (ErrHTTPPostRequest err))
                 | BodyReadError status part err \<Rightarrow> Returns (Inl (ErrHTTPPostRequest err))
                 | Response status body \<Rightarrow>
                     if Contains body ''<!DOCTYPE html>'' \<or> Contains body ''<html''
                     then Returns (Inl (ErrHTTPPostRequest (Errorf ''authentication failed'')))
                     else if status \<noteq> 200 \<and> status \<noteq> 201
                     then Returns (Inl (ErrHTTPPostRequest
                            (Errorf (''unexpected response code: '' @ showNat status))))
                     else (case probeDesignID (json_decode w) body of
                             ParseFailed err \<Rightarrow> Returns (Inl (ErrDecodingAPI err))
                           | ProbePanics msg \<Rightarrow> Panics msg
                           | Probed designID \<Rightarrow>
                               if designID = []
                               then Returns (Inl (ErrDecodingAPI
                                      (Errorf ''could not extract design ID from response'')))
                               else Returns (Inr designID))))"

section \<open>Triggering the snapshot: \<open>GenerateSnapshot\<close>\<close>

text \<open>
  The result is the returned error (\<open>None\<close> for \<open>nil\<close>) and the requests handed to
  \<open>client.Do\<close>, in order: the outbound HTTP calls. The part after the guards is the same
  in both copies.
\<close>

definition dispatch_request :: "globals \<Rightarrow> string \<Rightarrow> string \<Rightarrow> string \<Rightarrow> http_request" where
  "dispatch_request g designID assetLocation token =
     (let repoOwnerValue = (if repoOwner g = [] then ''layer5labs'' else repoOwner g);
          repoNameValue = (if repoName g = [] then ''kubectl-kanvas-snapshot'' else repoName g);
          workflowIDValue = (if workflowID g = [] then ''kanvas.yaml'' else workflowID g);
          assetLocation =
            (if assetLocation = []
             then ''https://raw.githubusercontent.com/layer5labs/meshery-extensions-packages/master/action-assets/kubectl-plugin-assets/''
                  @ designID @ ''.png''
             else assetLocation);
          apiURL = ''https://api.github.com/repos/'' @ repoOwnerValue @ ''/'' @ repoNameValue
                   @ ''/actions/workflows/'' @ workflowIDValue @ ''/dispatches'';
          payload = WorkflowDispatch ''master'' designID assetLocation
      in \<lparr>Method = ''POST'', ReqURL = apiURL,
          Header = [(''Accept'', ''application/vnd.github.v3+json''),
                    (''Authorization'', ''token '' @ token),
                    (''Content-Type'', ''application/json'')],
          Body = payload\<rparr>)"

definition dispatch_workflow ::
  "globals \<Rightarrow> world \<Rightarrow> string \<Rightarrow> string \<Rightarrow> string \<Rightarrow> error option \<times> http_request list" where
  "dispatch_workflow g w designID assetLocation token =
     (let req = dispatch_request g designID assetLocation token;
          failed = (\<lambda>status body.
            Some (ErrGeneratingSnapshot (Errorf (''workflow trigger failed with status ''
                    @ showNat status @ '': '' @ body))))
      in case NewRequest w (Method req) (ReqURL req) of
           Some err \<Rightarrow> (Some (ErrGeneratingSnapshot err), [])
         | None \<Rightarrow>
             (case Do w req of
                DoError err \<Rightarrow> (Some (ErrGeneratingSnapshot err), [req])
              | BodyReadError status part err \<Rightarrow>
                  if status \<noteq> 204 \<and> status \<noteq> 200 then (failed status part, [req])
                  else (None, [req])
              | Response status body \<Rightarrow>
                  if status \<noteq> 204 \<and> status \<noteq> 200 then (failed status body, [req])
                  else (None, [req])))"

text \<open>\<open>GenerateSnapshot\<close> of cmd.go: offline identifiers and an empty token return at once.\<close>

definition GenerateSnapshot ::
  "globals \<Rightarrow> world \<Rightarrow> string \<Rightarrow> string \<Rightarrow> string \<Rightarrow> error option \<times> http_request list" where
  "GenerateSnapshot g w designID assetLocation token =
     (if HasPrefix designID ''offline-mode-'' then (None, [])
      else if token = [] then (None, [])
      else dispatch_workflow g w designID assetLocation token)"

text \<open>\<open>GenerateSnapshot\<close> of the second copy: the empty token is its only guard.\<close>

definition GenerateSnapshot_strict ::
  "globals \<Rightarrow> world \<Rightarrow> string \<Rightarrow> string \<Rightarrow> string \<Rightarrow> error option \<times> http_request list" where
  "GenerateSnapshot_strict g w designID assetLocation token =
     (if token = [] then (None, [])
      else dispatch_workflow g w designID assetLocation token)"

section \<open>The file system and \<open>filepath.Walk\<close>\<close>

text \<open>
  What is found at a path, as \<open>os.Lstat\<close> sees it:
  \<open>File r\<close>, a file that is not a directory, \<open>r\<close> being what \<open>os.ReadFile\<close> returns for it;
  \<open>Symlink t\<close>, a symbolic link to \<open>t\<close>: \<open>Lstat\<close> does not follow it, \<open>Stat\<close> and
  \<open>ReadFile\<close> do;
  \<open>Dir es\<close>, a directory with its entries in the order \<open>readDirNames\<close> lists them
  (sorted by name);
  \<open>DirUnlistable e\<close>, a directory whose entries cannot be read;
  \<open>NoLstat e\<close>, a name on which \<open>Lstat\<close> fails (nothing there, or no permission).
\<close>

datatype fsnode =
    File "error + string"
  | Symlink fsnode
  | Dir "(string \<times> fsnode) list"
  | DirUnlistable error
  | NoLstat error

text \<open>\<open>os.Lstat\<close> and \<open>os.Stat\<close>, reduced to \<open>IsDir()\<close> of the info returned.\<close>

fun Lstat :: "fsnode \<Rightarrow> error + bool" where
  "Lstat (File r) = Inr False"
| "Lstat (Symlink t) = Inr False"
| "Lstat (Dir es) = Inr True"
| "Lstat (DirUnlistable e) = Inr True"
| "Lstat (NoLstat e) = Inl e"

fun Stat :: "fsnode \<Rightarrow> error + bool" where
  "Stat (Symlink t) = Stat t"
| "Stat n = Lstat n"

definition IsDir :: "fsnode \<Rightarrow> bool" where
  "IsDir info = (Lstat info = Inr True)"

fun ReadFile :: "fsnode \<Rightarrow> error + string" where
  "ReadFile (File r) = r"
| "ReadFile (Symlink t) = ReadFile t"
| "ReadFile (Dir es) = Inl (SysError ''is a directory'')"
| "ReadFile (DirUnlistable e) = Inl (SysError ''is a directory'')"
| "ReadFile (NoLstat e) = Inl e"

text \<open>
  A \<open>WalkFunc\<close> gets the path, the node there (for its \<open>FileInfo\<close> and for reading it)
  and the error \<open>Walk\<close> met, and returns \<open>nil\<close>, \<open>filepath.SkipDir\<close> or an error; the
  variables its closure writes are threaded as a state.
\<close>

datatype werr = SkipDir | Failure error

type_synonym 's WalkFunc = "string \<Rightarrow> fsnode \<Rightarrow> error option \<Rightarrow> 's \<Rightarrow> werr option \<times> 's"

text \<open>
  \<open>walk\<close> of path/filepath: a directory's names are read before the function is called
  on it, and the function gets the error of that read; an error other than \<open>SkipDir\<close> on
  a directory ends the walk.
\<close>

fun walk :: "'s WalkFunc \<Rightarrow> string \<Rightarrow> fsnode \<Rightarrow> 's \<Rightarrow> werr option \<times> 's"
  and walk_names :: "'s WalkFunc \<Rightarrow> string \<Rightarrow> (string \<times> fsnode) list \<Rightarrow> 's \<Rightarrow> werr option \<times> 's"
where
  "walk walkFn path (Dir names) s =
     (case walkFn path (Dir names) None s of
        (None, s1) \<Rightarrow> walk_names walkFn path names s1
      | (Some err1, s1) \<Rightarrow> (Some err1, s1))"
| "walk walkFn path (DirUnlistable err) s = walkFn path (DirUnlistable err) (Some err) s"
| "walk walkFn path (File r) s = walkFn path (File r) None s"
| "walk walkFn path (Symlink t) s = walkFn path (Symlink t) None s"
| "walk walkFn path (NoLstat e) s = walkFn path (NoLstat e) (Some e) s"
| "walk_names walkFn path [] s = (None, s)"
| "walk_names walkFn path ((name, child) # names) s =
     (let filename = Join path name in
      case Lstat child of
        Inl err \<Rightarrow>
          (case walkFn filename child (Some err) s of
             (Some (Failure e), s1) \<Rightarrow> (Some (Failure e), s1)
           | (_, s1) \<Rightarrow> walk_names walkFn path names s1)
      | Inr isDir \<Rightarrow>
          (case walk walkFn filename child s of
             (None, s1) \<Rightarrow> walk_names walkFn path names s1
           | (Some err, s1) \<Rightarrow>
               if \<not> isDir \<or> err \<noteq> SkipDir then (Some err, s1)
               else walk_names walkFn path names s1))"

text \<open>\<open>filepath.Walk(root, fn)\<close>, \<open>node\<close> being what is at \<open>root\<close>.\<close>

definition Walk :: "string \<Rightarrow> fsnode \<Rightarrow> 's WalkFunc \<Rightarrow> 's \<Rightarrow> error option \<times> 's" where
  "Walk root node fn s =
     (case (case Lstat node of
              Inl err \<Rightarrow> fn root node (Some err) s
            | Inr isDir \<Rightarrow> walk fn root node s) of
        (None, s1) \<Rightarrow> (None, s1)
      | (Some SkipDir, s1) \<Rightarrow> (None, s1)
      | (Some (Failure e), s1) \<Rightarrow> (Some e, s1))"

section \<open>Collecting the manifests\<close>

text \<open>The closure \<open>walkFn\<close> of \<open>processDirectory\<close>; its state is the slice \<open>manifests\<close>.\<close>

definition walkFn :: "string \<Rightarrow> bool \<Rightarrow> (string list) WalkFunc" where
  "walkFn dirPath recursive path info err manifests =
     (case err of
        Some e \<Rightarrow> (Some (Failure e), manifests)
      | None \<Rightarrow>
          if IsDir info then
            (if path \<noteq> dirPath \<and> \<not> recursive then (Some SkipDir, manifests)
             else (None, manifests))
          else if HasSuffix (ToLower path) ''.yaml'' \<or> HasSuffix (ToLower path) ''.yml'' then
            (case ReadFile info of
               Inl e \<Rightarrow> (Some (Failure e), manifests)
             | Inr content \<Rightarrow> (None, manifests @ [content]))
          else (None, manifests))"

text \<open>\<open>processDirectory\<close> returns the slice and the error, both.\<close>

definition processDirectory :: "fsnode \<Rightarrow> string \<Rightarrow> bool \<Rightarrow> string list \<times> error option" where
  "processDirectory node dirPath recursive =
     (case Walk dirPath node (walkFn dirPath recursive) [] of
        (err, manifests) \<Rightarrow> (manifests, err))"

text \<open>\<open>getManifestContents\<close>, \<open>node\<close> being what is at \<open>path\<close>.\<close>

definition getManifestContents :: "fsnode \<Rightarrow> string \<Rightarrow> bool \<Rightarrow> error + string list" where
  "getManifestContents node path recursive =
     (case Stat node of
        Inl err \<Rightarrow> Inl (ErrReadingManifestFile err)
      | Inr isDir \<Rightarrow>
          if isDir then
            (case processDirectory node path recursive of
               (manifests, Some err) \<Rightarrow> Inl (ErrReadingManifestFile err)
             | (manifests, None) \<Rightarrow>
                 if length manifests = 0
                 then Inl (ErrReadingManifestFile
                        (Errorf ''no YAML files found in the specified directory''))
                 else Inr manifests)
          else
            (case ReadFile node of
               Inl err \<Rightarrow> Inl (ErrReadingManifestFile err)
             | Inr content \<Rightarrow> Inr [content]))"

section \<open>Regular expressions (package \<open>regexp\<close>) and \<open>isValidEmail\<close>\<close>

text \<open>
  The syntax the pattern of \<open>emailRegex\<close> needs: a literal byte, a character class given
  by its ranges, the anchors \<open>^\<close> and \<open>$\<close> (without the multi-line flag: begin and end
  of the text), concatenation, \<open>*\<close>, \<open>+\<close> and \<open>{n,}\<close>.
\<close>

datatype regex =
    Lit char
  | CharClass "(char \<times> char) list"
  | BeginText
  | EndText
  | Concat regex regex
  | Star regex
  | Plus regex
  | Repeat nat regex

definition in_class :: "char \<Rightarrow> (char \<times> char) list \<Rightarrow> bool" where
  "in_class c ranges =
     list_ex (\<lambda>(lo, hi). (of_char lo :: nat) \<le> of_char c \<and> (of_char c :: nat) \<le> of_char hi) ranges"

text \<open>
  \<open>closure f n ps\<close>: the positions reached from \<open>ps\<close> by at most \<open>n\<close> rounds of \<open>f\<close>;
  \<open>rounds f n ps\<close>: those reached by exactly \<open>n\<close> rounds.
\<close>

fun closure :: "(nat \<Rightarrow> nat list) \<Rightarrow> nat \<Rightarrow> nat list \<Rightarrow> nat list" where
  "closure f 0 ps = ps"
| "closure f (Suc n) ps = ps @ closure f n (remdups (concat (map f ps)))"

fun rounds :: "(nat \<Rightarrow> nat list) \<Rightarrow> nat \<Rightarrow> nat list \<Rightarrow> nat list" where
  "rounds f 0 ps = ps"
| "rounds f (Suc n) ps = rounds f n (remdups (concat (map f ps)))"

text \<open>
  \<open>ends r t i\<close>: the positions \<open>j\<close> of the text \<open>t\<close> such that \<open>r\<close> matches \<open>t\<close> from
  position \<open>i\<close> up to \<open>j\<close>. A repetition needs at most \<open>length t\<close> rounds that consume
  something.
\<close>

primrec ends :: "regex \<Rightarrow> string \<Rightarrow> nat \<Rightarrow> nat list" where
  "ends (Lit c) t i = (if i < length t \<and> t ! i = c then [Suc i] else [])"
| "ends (CharClass ranges) t i = (if i < length t \<and> in_class (t ! i) ranges then [Suc i] else [])"
| "ends BeginText t i = (if i = 0 then [i] else [])"
| "ends EndText t i = (if i = length t then [i] else [])"
| "ends (Concat a b) t i = concat (map (ends b t) (ends a t i))"
| "ends (Star a) t i = closure (ends a t) (length t) [i]"
| "ends (Plus a) t i = closure (ends a t) (length t) (ends a t i)"
| "ends (Repeat n a) t i = closure (ends a t) (length t) (rounds (ends a t) n [i])"

text \<open>
  \<open>re.MatchString(t)\<close>: the expression matches somewhere in the text. The text is
  matched byte by byte; Go matches code point by code point, which is the same for a
  pattern whose literals and classes are ASCII: no byte of a longer UTF-8 sequence is
  in them.
\<close>

definition MatchString :: "regex \<Rightarrow> string \<Rightarrow> bool" where
  "MatchString re t = list_ex (\<lambda>i. ends re t i \<noteq> []) [0..<Suc (length t)]"

text \<open>The pattern \<open>^[a-z0-9._%+\-]+@[a-z0-9.\-]+\.[a-z]{2,}$\<close> of cmd.go, line 59.\<close>

definition emailRegex :: regex where
  "emailRegex =
     Concat BeginText
    (Concat (Plus (CharClass [(CHR ''a'', CHR ''z''), (CHR ''0'', CHR ''9''), (CHR ''.'', CHR ''.''),
                              (CHR ''_'', CHR ''_''), (CHR ''%'', CHR ''%''), (CHR ''+'', CHR ''+''),
                              (CHR ''-'', CHR ''-'')]))
    (Concat (Lit (CHR ''@''))
    (Concat (Plus (CharClass [(CHR ''a'', CHR ''z''), (CHR ''0'', CHR ''9''), (CHR ''.'', CHR ''.''),
                              (CHR ''-'', CHR ''-'')]))
    (Concat (Lit (CHR ''.''))
    (Concat (Repeat 2 (CharClass [(CHR ''a'', CHR ''z'')]))
     EndText)))))"

definition isValidEmail :: "string \<Rightarrow> bool" where
  "isValidEmail email = MatchString emailRegex email"

text \<open>
  The pattern in words: a non-empty local part of lower-case letters, digits and
  \<open>. _ % + -\<close>, an \<open>@\<close>, a non-empty domain of lower-case letters, digits and
  \<open>. -\<close>, a dot, and two or more lower-case letters.
\<close>

definition local_class :: "(char \<times> char) list" where
  "local_class = [(CHR ''a'', CHR ''z''), (CHR ''0'', CHR ''9''), (CHR ''.'', CHR ''.''),
                  (CHR ''_'', CHR ''_''), (CHR ''%'', CHR ''%''), (CHR ''+'', CHR ''+''),
                  (CHR ''-'', CHR ''-'')]"

definition domain_class :: "(char \<times> char) list" where
  "domain_class = [(CHR ''a'', CHR ''z''), (CHR ''0'', CHR ''9''), (CHR ''.'', CHR ''.''),
                   (CHR ''-'', CHR ''-'')]"

definition tld_class :: "(char \<times> char) list" where
  "tld_class = [(CHR ''a'', CHR ''z'')]"

definition email_shape :: "string \<Rightarrow> bool" where
  "email_shape s =
     (\<exists>local domain tld.
        s = local @ ''@'' @ domain @ ''.'' @ tld
        \<and> local \<noteq> [] \<and> (\<forall>c \<in> set local. in_class c local_class)
        \<and> domain \<noteq> [] \<and> (\<forall>c \<in> set domain. in_class c domain_class)
        \<and> 2 \<le> length tld \<and> (\<forall>c \<in> set tld. in_class c tld_class))"

text \<open>The bytes a regular expression can consume, and whether it ends with \<open>$\<close>.\<close>

primrec consumes :: "regex \<Rightarrow> char \<Rightarrow> bool" where
  "consumes (Lit c) x = (x = c)"
| "consumes (CharClass ranges) x = in_class x ranges"
| "consumes BeginText x = False"
| "consumes EndText x = False"
| "consumes (Concat a b) x = (consumes a x \<or> consumes b x)"
| "consumes (Star a) x = consumes a x"
| "consumes (Plus a) x = consumes a x"
| "consumes (Repeat n a) x = consumes a x"

primrec ends_with_EndText :: "regex \<Rightarrow> bool" where
  "ends_with_EndText (Lit c) = False"
| "ends_with_EndText (CharClass ranges) = False"
| "ends_with_EndText BeginText = False"
| "ends_with_EndText EndText = True"
| "ends_with_EndText (Concat a b) = ends_with_EndText b"
| "ends_with_EndText (Star a) = False"
| "ends_with_EndText (Plus a) = False"
| "ends_with_EndText (Repeat n a) = False"

text \<open>
  \<open>reach r t i j\<close>: \<open>j\<close> lies at or after \<open>i\<close> in the text, and every byte between them
  is one \<open>r\<close> can consume.
\<close>

definition reach :: "regex \<Rightarrow> string \<Rightarrow> nat \<Rightarrow> nat \<Rightarrow> bool" where
  "reach r t i j = (i \<le> j \<and> j \<le> length t \<and> (\<forall>k. i \<le> k \<and> k < j \<longrightarrow> consumes r (t ! k)))"

section \<open>Vocabulary of the statements\<close>

text \<open>
  \<open>answers w req out\<close>: in the world \<open>w\<close> the request \<open>req\<close> can be built, and sending
  it (and reading the body) comes to \<open>out\<close>.
\<close>

definition answers :: "world \<Rightarrow> http_request \<Rightarrow> http_outcome \<Rightarrow> bool" where
  "answers w req out = (NewRequest w (Method req) (ReqURL req) = None \<and> Do w req = out)"

text \<open>The status code of the response, when one arrived.\<close>

fun status_of :: "http_outcome \<Rightarrow> nat option" where
  "status_of (DoError err) = None"
| "status_of (BodyReadError status part err) = Some status"
| "status_of (Response status body) = Some status"

text \<open>
  A file name that ends, case-insensitively, in \<open>.yaml\<close> or \<open>.yml\<close>; for a name (a path
  element, no separator in it) that is to say that its extension lower-cases to one of
  the two.
\<close>

definition yaml_name :: "string \<Rightarrow> bool" where
  "yaml_name name = (HasSuffix (ToLower name) ''.yaml'' \<or> HasSuffix (ToLower name) ''.yml'')"

definition yaml_ext :: "string \<Rightarrow> bool" where
  "yaml_ext name = (ToLower (Ext name) = ''.yaml'' \<or> ToLower (Ext name) = ''.yml'')"

text \<open>What a matching file contributes: its content, when it can be read.\<close>

definition manifest_of :: "string \<Rightarrow> fsnode \<Rightarrow> string list" where
  "manifest_of name node =
     (if yaml_name name then (case ReadFile node of Inr content \<Rightarrow> [content] | Inl e \<Rightarrow> [])
      else [])"

text \<open>
  The manifests of the files directly in a directory, in the order of its entries, and
  those of the whole tree below it, in the order of the walk.
\<close>

definition root_level :: "(string \<times> fsnode) list \<Rightarrow> string list" where
  "root_level es =
     concat (map (\<lambda>(name, node). if IsDir node then [] else manifest_of name node) es)"

fun tree_level :: "(string \<times> fsnode) list \<Rightarrow> string list" where
  "tree_level [] = []"
| "tree_level ((name, Dir sub) # es) = tree_level sub @ tree_level es"
| "tree_level ((name, node) # es) = manifest_of name node @ tree_level es"

text \<open>
  An entry the walk gets past: \<open>Lstat\<close> succeeds on it, it is not a directory that cannot
  be listed, and if it is a file with a matching name it can be read. \<open>flat_readable\<close>
  asks that of the entries of the directory, \<open>tree_readable\<close> of the whole tree.
\<close>

fun passable :: "string \<times> fsnode \<Rightarrow> bool" where
  "passable (name, File r) = (yaml_name name \<longrightarrow> \<not> isl r)"
| "passable (name, Symlink t) = (yaml_name name \<longrightarrow> \<not> isl (ReadFile t))"
| "passable (name, Dir sub) = True"
| "passable (name, DirUnlistable e) = False"
| "passable (name, NoLstat e) = False"

definition flat_readable :: "(string \<times> fsnode) list \<Rightarrow> bool" where
  "flat_readable es = list_all passable es"

fun tree_readable :: "(string \<times> fsnode) list \<Rightarrow> bool" where
  "tree_readable [] = True"
| "tree_readable ((name, Dir sub) # es) = (tree_readable sub \<and> tree_readable es)"
| "tree_readable ((name, node) # es) = (passable (name, node) \<and> tree_readable es)"

text \<open>
  The timestamp in words: the year in four decimal digits, then month, day, hour, minute
  and second in two digits each, written out from the fields of the clock reading.
\<close>

definition two_digits :: "nat \<Rightarrow> string" where
  "two_digits n = [''0123456789'' ! (n div 10), ''0123456789'' ! (n mod 10)]"

definition four_digits :: "nat \<Rightarrow> string" where
  "four_digits n =
     [''0123456789'' ! (n div 1000), ''0123456789'' ! (n div 100 mod 10),
      ''0123456789'' ! (n div 10 mod 10), ''0123456789'' ! (n mod 10)]"

definition civil_digits :: "gotime \<Rightarrow> string" where
  "civil_digits t =
     four_digits (Year t) @ two_digits (Month t) @ two_digits (Day t) @
     two_digits (Hour t) @ two_digits (Minute t) @ two_digits (Second t)"

text \<open>What \<open>generateDummyID\<close> makes of the name.\<close>

definition sanitized :: "string \<Rightarrow> string" where
  "sanitized name =
     (if name = [] then ''design''
      else map (\<lambda>c. if c = CHR '' '' then CHR ''-'' else c) name)"

text \<open>The three response bodies with the identifier \<open>abc123\<close>, and what they decode to.\<close>

definition body_id :: string where
  "body_id = ''{\"id\": \"abc123\"}''"

definition body_pattern_file :: string where
  "body_pattern_file = ''{\"pattern_file\": {\"id\": \"abc123\"}}''"

definition body_pattern_id :: string where
  "body_pattern_id = ''{\"pattern_id\": \"abc123\"}''"

definition value_id :: gvalue where
  "value_id = GMap [(''id'', GString ''abc123'')]"

definition value_pattern_file :: gvalue where
  "value_pattern_file = GMap [(''pattern_file'', GMap [(''id'', GString ''abc123'')])]"

definition value_pattern_id :: gvalue where
  "value_pattern_id = GMap [(''pattern_id'', GString ''abc123'')]"

text \<open>
  A decoder that reads these three bodies as \<open>encoding/json\<close> does and rejects every other
  text, package variables as a plain run has them, a clock, and a world in which every
  request can be built and gets the outcome given.
\<close>

definition example_decode :: "string \<Rightarrow> error + gvalue" where
  "example_decode body =
     (if body = body_id then Inr value_id
      else if body = body_pattern_file then Inr value_pattern_file
      else if body = body_pattern_id then Inr value_pattern_id
      else Inl (SysError ''invalid character''))"

definition example_globals :: globals where
  "example_globals =
     \<lparr>ProviderToken = ''secret'', MesheryAPIBaseURL = ''http://localhost:9081'',
      Config_var = None, manifestPath = ''manifests/app.yaml'',
      repoOwner = [], repoName = [], workflowID = []\<rparr>"

definition example_now :: gotime where
  "example_now =
     \<lparr>Year = 2024, Month = 5, Day = 17, Hour = 9, Minute = 3, Second = 7, Nanosecond = 1\<rparr>"

definition example_world :: "http_outcome \<Rightarrow> world" where
  "example_world out =
     \<lparr>Now = example_now, NewRequest = (\<lambda>method url. None), Do = (\<lambda>req. out),
      json_decode = example_decode\<rparr>"

text \<open>The error of a read that the client's time-out interrupts.\<close>

definition timeout_reading_body :: error where
  "timeout_reading_body =
     SysError ''context deadline exceeded (Client.Timeout or context cancellation while reading body)''"

text \<open>A page as a redirect to the sign-in form returns it.\<close>

definition html_fixture :: string where
  "html_fixture = ''<!DOCTYPE html><html><body>Sign in</body></html>''"

text \<open>
  Three directories: one with manifests at the root and below, one with a subdirectory
  that cannot be listed, one with no manifest at its root.
\<close>

definition example_dir :: "(string \<times> fsnode) list" where
  "example_dir =
     [(''a.yaml'', File (Inr ''kind: Pod'')),
      (''notes.txt'', File (Inr ''to do'')),
      (''sub'', Dir [(''c.YML'', File (Inr ''kind: Service''))]),
      (''z.yml'', File (Inr ''kind: Job''))]"

definition example_dir_locked :: "(string \<times> fsnode) list" where
  "example_dir_locked =
     [(''a.yaml'', File (Inr ''kind: Pod'')),
      (''private'', DirUnlistable (SysError ''permission denied''))]"

definition example_dir_no_yaml :: "(string \<times> fsnode) list" where
  "example_dir_no_yaml =
     [(''notes.txt'', File (Inr ''to do'')),
      (''sub'', Dir [(''c.yml'', File (Inr ''kind: Service''))])]"

section \<open>Properties\<close>

subsection \<open>Strings and digits\<close>

lemma ReplaceAll_Nil [simp]: "ReplaceAll [] old new = []"
  by (simp add: ReplaceAll.simps)

lemma ReplaceAll_single:
  "ReplaceAll s [a] [b] = map (\<lambda>c. if c = a then b else c) s"
proof (induction s)
  case Nil
  show ?case by simp
next
  case (Cons c cs)
  show ?case
  proof (cases "c = a")
    case True
    then have "ReplaceAll (c # cs) [a] [b] = [b] @ ReplaceAll cs [a] [b]"
      by (subst ReplaceAll.simps) (simp add: HasPrefix_def)
    with True Cons show ?thesis by simp
  next
    case False
    then have "ReplaceAll (c # cs) [a] [b] = c # ReplaceAll cs [a] [b]"
      by (subst ReplaceAll.simps) (simp add: HasPrefix_def)
    with False Cons show ?thesis by simp
  qed
qed

lemma ReplaceAll_single_Nil_iff: "ReplaceAll s [a] [b] = [] \<longleftrightarrow> s = []"
  by (simp add: ReplaceAll_single)

lemma isDigit_digit: "d < 10 \<Longrightarrow> isDigit (digit d)"
proof -
  assume "d < 10"
  then have "d \<in> {0, 1, 2, 3, 4, 5, 6, 7, 8, 9}" by auto
  then show ?thesis by (auto simp: isDigit_def digit_def)
qed

lemma showNat_digits: "\<forall>c \<in> set (showNat n). isDigit c"
proof (induction n rule: showNat.induct)
  case (1 n)
  show ?case
  proof (cases "n < 10")
    case True
    then show ?thesis by (subst showNat.simps) (simp add: isDigit_digit)
  next
    case False
    with 1 show ?thesis by (subst showNat.simps) (simp add: isDigit_digit)
  qed
qed

lemma showNat_length: "n < 10 ^ w \<Longrightarrow> 0 < w \<Longrightarrow> length (showNat n) \<le> w"
proof (induction n arbitrary: w rule: showNat.induct)
  case (1 n)
  show ?case
  proof (cases "n < 10")
    case True
    with 1(3) show ?thesis by (subst showNat.simps) simp
  next
    case False
    with 1(2) have w2: "1 < w" by (cases "w = 1") (use 1(3) in auto)
    then obtain v where v: "w = Suc v" "0 < v" by (cases w) auto
    from 1(2) v have "n div 10 < 10 ^ v" by (simp add: less_mult_imp_div_less mult.commute)
    with 1(1) [OF False _ v(2)] have "length (showNat (n div 10)) \<le> v" by simp
    with False v show ?thesis by (subst showNat.simps) simp
  qed
qed

lemma appendInt_length: "n < 10 ^ w \<Longrightarrow> 0 < w \<Longrightarrow> length (appendInt n w) = w"
  using showNat_length [of n w] by (simp add: appendInt_def)

lemma appendInt_digits: "\<forall>c \<in> set (appendInt n w). isDigit c"
  using showNat_digits [of n] by (auto simp: appendInt_def isDigit_def)

lemma Format_length:
  assumes "wellformed_time t"
  shows "length (Format_20060102150405 t) = 14"
proof -
  from assms have "Year t < 10 ^ 4" "Month t < 10 ^ 2" "Day t < 10 ^ 2"
    "Hour t < 10 ^ 2" "Minute t < 10 ^ 2" "Second t < 10 ^ 2"
    by (simp_all add: wellformed_time_def)
  then show ?thesis
    by (simp add: Format_20060102150405_def appendInt_length)
qed

lemma Format_digits: "\<forall>c \<in> set (Format_20060102150405 t). isDigit c"
  using appendInt_digits by (auto simp: Format_20060102150405_def)

lemma Format_same_second:
  "same_second t u \<Longrightarrow> Format_20060102150405 t = Format_20060102150405 u"
  by (simp add: same_second_def Format_20060102150405_def)

lemma generateDummyID_eq:
  "generateDummyID name now =
     ''offline-mode-'' @ (if name = [] then ''design'' else map (\<lambda>c. if c = CHR '' '' then CHR ''-'' else c) name)
       @ ''-'' @ Format_20060102150405 now"
  by (simp add: generateDummyID_def Let_def ReplaceAll_single)

lemma showNat_1: "n < 10 \<Longrightarrow> showNat n = [digit n]"
  by (subst showNat.simps) simp

lemma showNat_2: "10 \<le> n \<Longrightarrow> n < 100 \<Longrightarrow> showNat n = [digit (n div 10), digit (n mod 10)]"
  by (subst showNat.simps) (simp add: showNat_1)

lemma showNat_3:
  "100 \<le> n \<Longrightarrow> n < 1000 \<Longrightarrow>
   showNat n = [digit (n div 100), digit (n div 10 mod 10), digit (n mod 10)]"
  by (subst showNat.simps) (simp add: showNat_2 div_mult2_eq [symmetric])

lemma showNat_4:
  "1000 \<le> n \<Longrightarrow> n < 10000 \<Longrightarrow>
   showNat n = [digit (n div 1000), digit (n div 100 mod 10), digit (n div 10 mod 10),
                digit (n mod 10)]"
  by (subst showNat.simps) (simp add: showNat_3 div_mult2_eq [symmetric])

lemma appendInt_two: "n < 100 \<Longrightarrow> appendInt n 2 = two_digits n"
  by (cases "n < 10") (simp_all add: appendInt_def showNat_1 showNat_2 two_digits_def digit_def)

lemma replicate_small:
  "replicate (Suc 0) c = [c]" "replicate 2 c = [c, c]" "replicate 3 c = [c, c, c]"
  by (simp_all add: numeral_2_eq_2 numeral_3_eq_3)

lemma appendInt_four: "n < 10000 \<Longrightarrow> appendInt n 4 = four_digits n"
proof -
  assume n: "n < 10000"
  consider "n < 10" | "10 \<le> n" "n < 100" | "100 \<le> n" "n < 1000" | "1000 \<le> n"
    by linarith
  then show ?thesis
  proof cases
    case 1
    then show ?thesis
      by (simp add: appendInt_def showNat_1 four_digits_def digit_def replicate_small)
  next
    case 2
    then show ?thesis
      by (simp add: appendInt_def showNat_2 four_digits_def digit_def replicate_small)
  next
    case 3
    then show ?thesis
      by (simp add: appendInt_def showNat_3 four_digits_def digit_def replicate_small)
  next
    case 4
    with n show ?thesis
      by (simp add: appendInt_def showNat_4 four_digits_def digit_def)
  qed
qed

lemma Format_civil: "wellformed_time t \<Longrightarrow> Format_20060102150405 t = civil_digits t"
  by (simp add: wellformed_time_def Format_20060102150405_def civil_digits_def appendInt_two
      appendInt_four)

lemma of_char_digit: "d < 10 \<Longrightarrow> (of_char (''0123456789'' ! d) :: nat) = 48 + d"
proof -
  assume "d < 10"
  then have "d \<in> {0, 1, 2, 3, 4, 5, 6, 7, 8, 9}" by auto
  then show ?thesis by auto
qed

lemma digit_inj:
  assumes "a < 10" "b < 10" "''0123456789'' ! a = ''0123456789'' ! b"
  shows "a = b"
proof -
  from assms(3) have "(of_char (''0123456789'' ! a) :: nat) = of_char (''0123456789'' ! b)"
    by (rule arg_cong)
  with of_char_digit [OF assms(1)] of_char_digit [OF assms(2)] show ?thesis by linarith
qed

lemma two_digits_inj:
  assumes "a < 100" "b < 100" "two_digits a = two_digits b"
  shows "a = b"
proof -
  from assms(3) have e: "''0123456789'' ! (a div 10) = ''0123456789'' ! (b div 10)"
    "''0123456789'' ! (a mod 10) = ''0123456789'' ! (b mod 10)"
    unfolding two_digits_def by blast+
  from assms(1,2) have "a div 10 < 10" "b div 10 < 10" by simp_all
  then have "a div 10 = b div 10" using e(1) by (rule digit_inj)
  moreover have "a mod 10 = b mod 10" using e(2) by (intro digit_inj) simp_all
  ultimately show ?thesis by (metis div_mult_mod_eq)
qed

lemma four_digits_inj:
  assumes "a < 10000" "b < 10000" "four_digits a = four_digits b"
  shows "a = b"
proof -
  from assms(3) have e: "''0123456789'' ! (a div 1000) = ''0123456789'' ! (b div 1000)"
    "''0123456789'' ! (a div 100 mod 10) = ''0123456789'' ! (b div 100 mod 10)"
    "''0123456789'' ! (a div 10 mod 10) = ''0123456789'' ! (b div 10 mod 10)"
    "''0123456789'' ! (a mod 10) = ''0123456789'' ! (b mod 10)"
    unfolding four_digits_def by blast+
  from assms(1,2) have "a div 1000 < 10" "b div 1000 < 10" by simp_all
  then have 1: "a div 1000 = b div 1000" using e(1) by (rule digit_inj)
  have 2: "a div 100 mod 10 = b div 100 mod 10" using e(2) by (intro digit_inj) simp_all
  have 3: "a div 10 mod 10 = b div 10 mod 10" using e(3) by (intro digit_inj) simp_all
  have 4: "a mod 10 = b mod 10" using e(4) by (intro digit_inj) simp_all
  have "a div 100 div 10 = b div 100 div 10" using 1 by (simp add: div_mult2_eq [symmetric])
  with 2 have "a div 100 = b div 100" by (metis div_mult_mod_eq)
  then have "a div 10 div 10 = b div 10 div 10" by (simp add: div_mult2_eq [symmetric])
  with 3 have "a div 10 = b div 10" by (metis div_mult_mod_eq)
  with 4 show ?thesis by (metis div_mult_mod_eq)
qed

lemma length_two_digits [simp]: "length (two_digits n) = 2"
  by (simp add: two_digits_def)

lemma length_four_digits [simp]: "length (four_digits n) = 4"
  by (simp add: four_digits_def)

lemma civil_digits_inj:
  assumes "wellformed_time t" "wellformed_time u" "civil_digits t = civil_digits u"
  shows "same_second t u"
proof -
  from assms(3) have "four_digits (Year t) = four_digits (Year u)"
    "two_digits (Month t) = two_digits (Month u)" "two_digits (Day t) = two_digits (Day u)"
    "two_digits (Hour t) = two_digits (Hour u)" "two_digits (Minute t) = two_digits (Minute u)"
    "two_digits (Second t) = two_digits (Second u)"
    by (simp_all add: civil_digits_def)
  note e = this
  from assms(1,2) have b: "Year t < 10000" "Year u < 10000" "Month t < 100" "Month u < 100"
    "Day t < 100" "Day u < 100" "Hour t < 100" "Hour u < 100" "Minute t < 100" "Minute u < 100"
    "Second t < 100" "Second u < 100"
    by (simp_all add: wellformed_time_def)
  show ?thesis
    unfolding same_second_def
    using four_digits_inj [OF b(1,2) e(1)] two_digits_inj [OF b(3,4) e(2)]
      two_digits_inj [OF b(5,6) e(3)] two_digits_inj [OF b(7,8) e(4)]
      two_digits_inj [OF b(9,10) e(5)] two_digits_inj [OF b(11,12) e(6)]
    by simp
qed

subsection \<open>Offline identifiers\<close>

text \<open>
  C9. \<open>generateDummyID\<close> is a function of the name and of the clock reading down to the
  second: every space of the name becomes a hyphen, the empty name becomes \<open>design\<close>,
  the result is \<open>offline-mode-\<close>, the sanitized name, a hyphen and the timestamp. The
  timestamp is the 14 decimal digits of the reading's year, month, day, hour, minute and
  second; two calls with the same name return the same identifier when they fall in the
  same second, and only then.
\<close>

theorem generateDummyID_deterministic:
  assumes "wellformed_time t"
  shows "generateDummyID name t =
           ''offline-mode-''
           @ (if name = [] then ''design''
              else map (\<lambda>c. if c = CHR '' '' then CHR ''-'' else c) name)
           @ ''-'' @ civil_digits t
         \<and> Format_20060102150405 t = civil_digits t
         \<and> length (Format_20060102150405 t) = 14
         \<and> (\<forall>c \<in> set (Format_20060102150405 t). isDigit c)
         \<and> (same_second t u \<longrightarrow> generateDummyID name u = generateDummyID name t)
         \<and> (wellformed_time u \<and> generateDummyID name u = generateDummyID name t
              \<longrightarrow> same_second t u)"
proof -
  have same: "same_second t u \<longrightarrow> generateDummyID name u = generateDummyID name t"
    by (simp add: generateDummyID_eq Format_same_second [of t u])
  have only: "same_second t u"
    if "wellformed_time u" "generateDummyID name u = generateDummyID name t"
  proof -
    from that(2) have "Format_20060102150405 u = Format_20060102150405 t"
      by (simp add: generateDummyID_eq)
    with assms that(1) have "civil_digits t = civil_digits u" by (simp add: Format_civil)
    with assms that(1) show ?thesis by (rule civil_digits_inj)
  qed
  have civil: "Format_20060102150405 t = civil_digits t"
    using assms by (rule Format_civil)
  have ident: "generateDummyID name t =
           ''offline-mode-''
           @ (if name = [] then ''design''
              else map (\<lambda>c. if c = CHR '' '' then CHR ''-'' else c) name)
           @ ''-'' @ civil_digits t"
    unfolding civil [symmetric] by (rule generateDummyID_eq)
  from ident civil Format_length [OF assms] Format_digits [of t] same only show ?thesis
    by blast
qed

theorem generateDummyID_deterministic_witness:
  "wellformed_time \<lparr>Year = 2024, Month = 5, Day = 17, Hour = 9, Minute = 3, Second = 7, Nanosecond = 1\<rparr>
   \<and> same_second \<lparr>Year = 2024, Month = 5, Day = 17, Hour = 9, Minute = 3, Second = 7, Nanosecond = 1\<rparr>
        \<lparr>Year = 2024, Month = 5, Day = 17, Hour = 9, Minute = 3, Second = 7, Nanosecond = 999\<rparr>
   \<and> generateDummyID ''my app'' \<lparr>Year = 2024, Month = 5, Day = 17, Hour = 9, Minute = 3, Second = 7, Nanosecond = 1\<rparr>
       = ''offline-mode-my-app-20240517090307''
   \<and> generateDummyID ''my app'' \<lparr>Year = 2024, Month = 5, Day = 17, Hour = 9, Minute = 3, Second = 7, Nanosecond = 999\<rparr>
       = ''offline-mode-my-app-20240517090307''
   \<and> wellformed_time \<lparr>Year = 2024, Month = 5, Day = 17, Hour = 9, Minute = 3, Second = 8, Nanosecond = 0\<rparr>
   \<and> generateDummyID ''my app'' \<lparr>Year = 2024, Month = 5, Day = 17, Hour = 9, Minute = 3, Second = 8, Nanosecond = 0\<rparr>
       = ''offline-mode-my-app-20240517090308''"
proof -
  let ?t = "\<lparr>Year = 2024, Month = 5, Day = 17, Hour = 9, Minute = 3, Second = 7, Nanosecond = 1\<rparr>"
  let ?u = "\<lparr>Year = 2024, Month = 5, Day = 17, Hour = 9, Minute = 3, Second = 7, Nanosecond = 999\<rparr>"
  let ?v = "\<lparr>Year = 2024, Month = 5, Day = 17, Hour = 9, Minute = 3, Second = 8, Nanosecond = 0\<rparr>"
  have wt: "wellformed_time ?t" by (simp add: wellformed_time_def)
  have wv: "wellformed_time ?v" by (simp add: wellformed_time_def)
  have s: "same_second ?t ?u" by (simp add: same_second_def)
  have dt: "civil_digits ?t = ''20240517090307''"
    by (simp add: civil_digits_def four_digits_def two_digits_def)
  have dv: "civil_digits ?v = ''20240517090308''"
    by (simp add: civil_digits_def four_digits_def two_digits_def)
  note at_t = generateDummyID_deterministic [OF wt, of "''my app''" ?u]
  note at_v = generateDummyID_deterministic [OF wv, of "''my app''" ?u]
  from at_t [THEN conjunct1] dt
  have it: "generateDummyID ''my app'' ?t = ''offline-mode-my-app-20240517090307''" by simp
  from at_t [THEN conjunct2, THEN conjunct2, THEN conjunct2, THEN conjunct2, THEN conjunct1] s
  have "generateDummyID ''my app'' ?u = generateDummyID ''my app'' ?t" by (rule mp)
  from this it have iu: "generateDummyID ''my app'' ?u = ''offline-mode-my-app-20240517090307''"
    by (rule trans)
  from at_v [THEN conjunct1] dv
  have iv: "generateDummyID ''my app'' ?v = ''offline-mode-my-app-20240517090308''" by simp
  from wt s it iu wv iv show ?thesis by (intro conjI)
qed

subsection \<open>Matching\<close>

lemma reach_refl: "i \<le> length t \<Longrightarrow> reach r t i i"
  by (auto simp: reach_def)

lemma reach_trans: "reach r t i j \<Longrightarrow> reach r t j k \<Longrightarrow> reach r t i k"
  by (auto simp: reach_def) (metis not_le_imp_less)

lemma rounds_reach:
  assumes step: "\<And>p q. p \<le> length t \<Longrightarrow> q \<in> set (f p) \<Longrightarrow> reach r t p q"
  shows "j \<in> set (rounds f n ps) \<Longrightarrow> \<forall>p \<in> set ps. reach r t i p \<Longrightarrow> reach r t i j"
proof (induction n arbitrary: ps)
  case 0
  then show ?case by simp
next
  case (Suc n)
  have "\<forall>q \<in> set (remdups (concat (map f ps))). reach r t i q"
  proof
    fix q assume "q \<in> set (remdups (concat (map f ps)))"
    then obtain p where p: "p \<in> set ps" "q \<in> set (f p)" by auto
    with Suc.prems(2) have ip: "reach r t i p" by blast
    then have "p \<le> length t" by (simp add: reach_def)
    with p step have "reach r t p q" by blast
    with ip show "reach r t i q" by (rule reach_trans)
  qed
  with Suc.IH [of "remdups (concat (map f ps))"] Suc.prems(1) show ?case by simp
qed

lemma closure_reach:
  assumes step: "\<And>p q. p \<le> length t \<Longrightarrow> q \<in> set (f p) \<Longrightarrow> reach r t p q"
  shows "j \<in> set (closure f n ps) \<Longrightarrow> \<forall>p \<in> set ps. reach r t i p \<Longrightarrow> reach r t i j"
proof (induction n arbitrary: ps)
  case 0
  then show ?case by simp
next
  case (Suc n)
  have nxt: "\<forall>q \<in> set (remdups (concat (map f ps))). reach r t i q"
  proof
    fix q assume "q \<in> set (remdups (concat (map f ps)))"
    then obtain p where p: "p \<in> set ps" "q \<in> set (f p)" by auto
    with Suc.prems(2) have ip: "reach r t i p" by blast
    then have "p \<le> length t" by (simp add: reach_def)
    with p step have "reach r t p q" by blast
    with ip show "reach r t i q" by (rule reach_trans)
  qed
  from Suc.prems(1) consider "j \<in> set ps" | "j \<in> set (closure f n (remdups (concat (map f ps))))"
    by auto
  then show ?case
  proof cases
    case 1
    with Suc.prems(2) show ?thesis by blast
  next
    case 2
    with Suc.IH nxt show ?thesis by blast
  qed
qed

lemma reach_mono: "(\<And>x. consumes a x \<Longrightarrow> consumes r x) \<Longrightarrow> reach a t i j \<Longrightarrow> reach r t i j"
  by (auto simp: reach_def)

lemma ends_reach: "i \<le> length t \<Longrightarrow> j \<in> set (ends r t i) \<Longrightarrow> reach r t i j"
proof (induction r arbitrary: i j)
  case (Lit c)
  then have "j = Suc i" "i < length t" "t ! i = c" by (auto split: if_splits)
  then show ?case by (auto simp: reach_def less_Suc_eq_le)
next
  case (CharClass ranges)
  then have "j = Suc i" "i < length t" "in_class (t ! i) ranges" by (auto split: if_splits)
  then show ?case by (auto simp: reach_def less_Suc_eq_le)
next
  case BeginText
  then show ?case by (auto simp: reach_def split: if_splits)
next
  case EndText
  then show ?case by (auto simp: reach_def split: if_splits)
next
  case (Concat a b)
  from Concat.prems(2) obtain k where k: "k \<in> set (ends a t i)" "j \<in> set (ends b t k)" by auto
  from Concat.IH(1) [OF Concat.prems(1) k(1)] have ik: "reach a t i k" .
  then have "k \<le> length t" by (simp add: reach_def)
  from Concat.IH(2) [OF this k(2)] have kj: "reach b t k j" .
  from ik have "reach (Concat a b) t i k" by (rule reach_mono [rotated]) simp
  moreover from kj have "reach (Concat a b) t k j" by (rule reach_mono [rotated]) simp
  ultimately show ?case by (rule reach_trans)
next
  case (Star a)
  have step: "reach (Star a) t p q" if "p \<le> length t" "q \<in> set (ends a t p)" for p q
  proof -
    from that have "reach a t p q" by (rule Star.IH)
    then show ?thesis by (simp add: reach_def)
  qed
  from Star.prems show ?case
    using closure_reach [of t "ends a t" "Star a" j "length t" "[i]" i, OF step]
    by (simp add: reach_refl)
next
  case (Plus a)
  have step: "reach (Plus a) t p q" if "p \<le> length t" "q \<in> set (ends a t p)" for p q
  proof -
    from that have "reach a t p q" by (rule Plus.IH)
    then show ?thesis by (simp add: reach_def)
  qed
  from Plus.prems show ?case
    using closure_reach [of t "ends a t" "Plus a" j "length t" "ends a t i" i, OF step]
    by (simp add: step)
next
  case (Repeat n a)
  have step: "reach (Repeat n a) t p q" if "p \<le> length t" "q \<in> set (ends a t p)" for p q
  proof -
    from that have "reach a t p q" by (rule Repeat.IH)
    then show ?thesis by (simp add: reach_def)
  qed
  have "\<forall>p \<in> set (rounds (ends a t) n [i]). reach (Repeat n a) t i p"
    using rounds_reach [of t "ends a t" "Repeat n a" _ n "[i]" i, OF step] Repeat.prems(1)
    by (simp add: reach_refl)
  with Repeat.prems show ?case
    using closure_reach [of t "ends a t" "Repeat n a" j "length t" "rounds (ends a t) n [i]" i, OF step]
    by simp
qed

lemma ends_EndText: "ends_with_EndText r \<Longrightarrow> j \<in> set (ends r t i) \<Longrightarrow> j = length t"
  by (induction r arbitrary: i j) (auto split: if_splits)

lemma MatchString_anchored:
  assumes "ends_with_EndText r" and "MatchString (Concat BeginText r) t"
  shows "\<forall>c \<in> set t. consumes r c"
proof -
  from assms(2) obtain i where "ends (Concat BeginText r) t i \<noteq> []"
    by (auto simp: MatchString_def list_ex_iff)
  then obtain j where j: "j \<in> set (ends (Concat BeginText r) t i)"
    by (meson last_in_set)
  then have j0: "j \<in> set (ends r t 0)" by (auto split: if_splits)
  with assms(1) have "j = length t" by (rule ends_EndText)
  moreover from j0 have "reach r t 0 j" by (intro ends_reach) simp_all
  ultimately have "\<forall>k < length t. consumes r (t ! k)" by (simp add: reach_def)
  then show ?thesis by (auto simp: in_set_conv_nth)
qed

lemma emailRegex_no_upper: "consumes emailRegex c \<Longrightarrow> \<not> isUpper c"
  by (auto simp: emailRegex_def in_class_def isUpper_def)

subsection \<open>E-mail addresses\<close>

lemma isValidEmail_consumes:
  assumes "isValidEmail email"
  shows "\<forall>c \<in> set email. consumes emailRegex c"
proof -
  obtain r where r: "emailRegex = Concat BeginText r" "ends_with_EndText r"
    by (simp add: emailRegex_def)
  with assms have "\<forall>c \<in> set email. consumes r c"
    using MatchString_anchored [of r email] by (simp add: isValidEmail_def)
  then show ?thesis unfolding r(1) by simp
qed

lemma closure_ge:
  assumes step: "\<And>p q. q \<in> set (f p) \<Longrightarrow> p \<le> q"
  shows "j \<in> set (closure f n ps) \<Longrightarrow> \<exists>p \<in> set ps. p \<le> j"
proof (induction n arbitrary: ps)
  case 0
  then show ?case by auto
next
  case (Suc n)
  from Suc.prems consider "j \<in> set ps" | "j \<in> set (closure f n (remdups (concat (map f ps))))"
    by auto
  then show ?case
  proof cases
    case 1
    then show ?thesis by auto
  next
    case 2
    from Suc.IH [OF 2] obtain q where "q \<in> set (remdups (concat (map f ps)))" "q \<le> j" by blast
    then obtain p where "p \<in> set ps" "q \<in> set (f p)" "q \<le> j" by auto
    with step [of q p] show ?thesis by (meson le_trans)
  qed
qed

lemma rounds_class:
  "j \<in> set (rounds (ends (CharClass rs) t) n ps) \<Longrightarrow> \<exists>p \<in> set ps. j = p + n"
proof (induction n arbitrary: ps)
  case 0
  then show ?case by auto
next
  case (Suc n)
  from Suc.prems have "j \<in> set (rounds (ends (CharClass rs) t) n
      (remdups (concat (map (ends (CharClass rs) t) ps))))"
    by (simp del: ends.simps)
  from Suc.IH [OF this] obtain q
    where q: "q \<in> set (remdups (concat (map (ends (CharClass rs) t) ps)))" "j = q + n" by blast
  then obtain p where "p \<in> set ps" "q = Suc p" by (auto split: if_splits)
  with q(2) show ?case by auto
qed

lemma ends_Plus_class:
  assumes "j \<in> set (ends (Plus (CharClass rs)) t i)" and "i \<le> length t"
  shows "i < j \<and> j \<le> length t \<and> (\<forall>k. i \<le> k \<and> k < j \<longrightarrow> in_class (t ! k) rs)"
proof -
  from ends_reach [OF assms(2,1)] have r: "reach (Plus (CharClass rs)) t i j" .
  have "\<exists>p \<in> set (ends (CharClass rs) t i). p \<le> j"
    using assms(1) by (intro closure_ge [of "ends (CharClass rs) t" j "length t"])
      (auto split: if_splits)
  then have "i < j" by (auto split: if_splits)
  with r show ?thesis by (simp add: reach_def)
qed

lemma ends_Repeat_class:
  assumes "j \<in> set (ends (Repeat n (CharClass rs)) t i)" and "i \<le> length t"
  shows "i + n \<le> j \<and> j \<le> length t \<and> (\<forall>k. i \<le> k \<and> k < j \<longrightarrow> in_class (t ! k) rs)"
proof -
  from ends_reach [OF assms(2,1)] have r: "reach (Repeat n (CharClass rs)) t i j" .
  have "\<exists>p \<in> set (rounds (ends (CharClass rs) t) n [i]). p \<le> j"
    using assms(1) by (intro closure_ge [of "ends (CharClass rs) t" j "length t"])
      (auto split: if_splits)
  then obtain p where "p \<in> set (rounds (ends (CharClass rs) t) n [i])" "p \<le> j" by blast
  with rounds_class [of p rs t n "[i]"] have "i + n \<le> j" by auto
  with r show ?thesis by (simp add: reach_def)
qed

lemma set_take_nth:
  assumes "n \<le> length s" and "\<forall>k < n. P (s ! k)"
  shows "\<forall>c \<in> set (take n s). P c"
proof
  fix c assume "c \<in> set (take n s)"
  then obtain k where "k < length (take n s)" "c = take n s ! k" by (auto simp: in_set_conv_nth)
  with assms(1) have "k < n" "c = s ! k" by simp_all
  with assms(2) show "P c" by simp
qed

lemma set_drop_nth:
  assumes "\<forall>k. n \<le> k \<and> k < length s \<longrightarrow> P (s ! k)"
  shows "\<forall>c \<in> set (drop n s). P c"
proof
  fix c assume "c \<in> set (drop n s)"
  then obtain k where "k < length (drop n s)" "c = drop n s ! k" by (auto simp: in_set_conv_nth)
  then have "c = s ! (n + k)" "n + k < length s" by auto
  with assms show "P c" by (metis le_add1)
qed

lemma isValidEmail_shape:
  assumes "isValidEmail s"
  shows "email_shape s"
proof -
  from assms obtain i where "ends emailRegex s i \<noteq> []"
    by (auto simp: isValidEmail_def MatchString_def list_ex_iff)
  then obtain j where j: "j \<in> set (ends emailRegex s i)" by (meson last_in_set)
  then obtain p2 p4 p6 where
    p2: "p2 \<in> set (ends (Plus (CharClass local_class)) s 0)" and
    at: "p2 < length s" "s ! p2 = CHR ''@''" and
    p4: "p4 \<in> set (ends (Plus (CharClass domain_class)) s (Suc p2))" and
    dot: "p4 < length s" "s ! p4 = CHR ''.''" and
    p6: "p6 \<in> set (ends (Repeat 2 (CharClass tld_class)) s (Suc p4))" and
    e: "p6 = length s"
    unfolding emailRegex_def local_class_def [symmetric] domain_class_def [symmetric]
      tld_class_def [symmetric]
    by (auto simp del: ends.simps(6,7,8) split: if_splits)
  from ends_Plus_class [OF p2] have l: "0 < p2" "\<forall>k < p2. in_class (s ! k) local_class" by simp_all
  from ends_Plus_class [OF p4] at(1)
  have d: "Suc p2 < p4" "\<forall>k. Suc p2 \<le> k \<and> k < p4 \<longrightarrow> in_class (s ! k) domain_class"
    by simp_all
  from ends_Repeat_class [OF p6] dot(1) e
  have t: "Suc p4 + 2 \<le> length s"
    "\<forall>k. Suc p4 \<le> k \<and> k < length s \<longrightarrow> in_class (s ! k) tld_class"
    by simp_all
  define loc where "loc = take p2 s"
  define dom where "dom = take (p4 - Suc p2) (drop (Suc p2) s)"
  define tld where "tld = drop (Suc p4) s"
  have s1: "s = loc @ CHR ''@'' # drop (Suc p2) s"
    using at id_take_nth_drop [of p2 s] by (simp add: loc_def)
  have "drop (p4 - Suc p2) (drop (Suc p2) s) = drop p4 s"
    using d(1) by simp
  then have s2: "drop (Suc p2) s = dom @ drop p4 s"
    unfolding dom_def by (metis append_take_drop_id)
  have s3: "drop p4 s = CHR ''.'' # tld"
    using dot Cons_nth_drop_Suc [of p4 s] by (simp add: tld_def)
  have "s = loc @ ''@'' @ dom @ ''.'' @ tld" using s1 s2 s3 by simp
  moreover have "loc \<noteq> []" using l(1) at(1) by (auto simp: loc_def)
  moreover have "\<forall>c \<in> set loc. in_class c local_class"
    unfolding loc_def using l(2) at(1) by (intro set_take_nth) simp_all
  moreover have "dom \<noteq> []" using d(1) dot(1) by (auto simp: dom_def)
  moreover have "\<forall>c \<in> set dom. in_class c domain_class"
  proof
    fix c assume "c \<in> set dom"
    then obtain k where k: "k < length dom" "c = dom ! k" by (auto simp: in_set_conv_nth)
    with dot(1) d(1) have "k < p4 - Suc p2" by (simp add: dom_def)
    with k d(1) dot(1) have "c = s ! (Suc p2 + k)" "Suc p2 + k < p4" by (simp_all add: dom_def)
    with d(2) show "in_class c domain_class" by simp
  qed
  moreover have "2 \<le> length tld" using t(1) by (simp add: tld_def)
  moreover have "\<forall>c \<in> set tld. in_class c tld_class"
    unfolding tld_def using t(2) by (intro set_drop_nth) simp
  ultimately show ?thesis unfolding email_shape_def by blast
qed


lemma closure_class_complete:
  assumes "\<forall>k. i \<le> k \<and> k < j \<longrightarrow> k < length t \<and> in_class (t ! k) rs"
    and "i \<le> j" and "j - i \<le> n"
  shows "j \<in> set (closure (ends (CharClass rs) t) n [i])"
  using assms
proof (induction n arbitrary: i)
  case 0
  then show ?case by simp
next
  case (Suc n)
  show ?case
  proof (cases "i = j")
    case True
    then show ?thesis by simp
  next
    case False
    with Suc.prems have ij: "i < j" by simp
    with Suc.prems(1) have "i < length t" "in_class (t ! i) rs" by auto
    then have f: "ends (CharClass rs) t i = [Suc i]" by simp
    from Suc.prems ij have "j \<in> set (closure (ends (CharClass rs) t) n [Suc i])"
      by (intro Suc.IH) auto
    with f show ?thesis by (simp del: ends.simps)
  qed
qed

lemma ends_Plus_class_complete:
  assumes "\<forall>k. i \<le> k \<and> k < j \<longrightarrow> in_class (t ! k) rs" and "i < j" and "j \<le> length t"
  shows "j \<in> set (ends (Plus (CharClass rs)) t i)"
proof -
  from assms have f: "ends (CharClass rs) t i = [Suc i]" by simp
  have "j \<in> set (closure (ends (CharClass rs) t) (length t) [Suc i])"
    using assms by (intro closure_class_complete) auto
  with f show ?thesis by (simp del: ends.simps(2))
qed

lemma ends_Repeat2_class_complete:
  assumes "\<forall>k. i \<le> k \<and> k < j \<longrightarrow> in_class (t ! k) rs" and "i + 2 \<le> j" and "j \<le> length t"
  shows "j \<in> set (ends (Repeat 2 (CharClass rs)) t i)"
proof -
  from assms have f: "ends (CharClass rs) t i = [Suc i]"
    "ends (CharClass rs) t (Suc i) = [Suc (Suc i)]" by simp_all
  then have r: "rounds (ends (CharClass rs) t) 2 [i] = [Suc (Suc i)]"
    by (simp add: numeral_2_eq_2 del: ends.simps(2))
  have "j \<in> set (closure (ends (CharClass rs) t) (length t) [Suc (Suc i)])"
    using assms by (intro closure_class_complete) auto
  with r show ?thesis by (simp del: ends.simps(2))
qed

lemma ends_ConcatI:
  "k \<in> set (ends a t i) \<Longrightarrow> j \<in> set (ends b t k) \<Longrightarrow> j \<in> set (ends (Concat a b) t i)"
  by auto

lemma ends_LitI: "i < length t \<Longrightarrow> t ! i = c \<Longrightarrow> Suc i \<in> set (ends (Lit c) t i)"
  by simp

lemma email_shape_valid:
  assumes "email_shape s"
  shows "isValidEmail s"
proof -
  from assms obtain loc dom tld where
    s: "s = loc @ ''@'' @ dom @ ''.'' @ tld" and
    l: "loc \<noteq> []" "\<forall>c \<in> set loc. in_class c local_class" and
    d: "dom \<noteq> []" "\<forall>c \<in> set dom. in_class c domain_class" and
    t: "2 \<le> length tld" "\<forall>c \<in> set tld. in_class c tld_class"
    unfolding email_shape_def by blast
  define p2 where "p2 = length loc"
  define p4 where "p4 = Suc p2 + length dom"
  have len: "length s = Suc p4 + length tld" by (simp add: s p2_def p4_def)
  have at: "p2 < length s" "s ! p2 = CHR ''@''" by (simp_all add: s p2_def nth_append)
  have dot: "p4 < length s" "s ! p4 = CHR ''.''"
    by (simp_all add: s p2_def p4_def nth_append)
  have "\<forall>k. 0 \<le> k \<and> k < p2 \<longrightarrow> in_class (s ! k) local_class"
    using l(2) by (simp add: s p2_def nth_append)
  then have 1: "p2 \<in> set (ends (Plus (CharClass local_class)) s 0)"
    using l(1) at(1) by (intro ends_Plus_class_complete) (simp_all add: p2_def)
  have "\<forall>k. Suc p2 \<le> k \<and> k < p4 \<longrightarrow> in_class (s ! k) domain_class"
  proof (intro allI impI)
    fix k assume k: "Suc p2 \<le> k \<and> k < p4"
    then have "s ! k = dom ! (k - Suc p2)" "k - Suc p2 < length dom"
      by (auto simp: s p2_def p4_def nth_append nth_Cons')
    with d(2) show "in_class (s ! k) domain_class" by (metis nth_mem)
  qed
  then have 2: "p4 \<in> set (ends (Plus (CharClass domain_class)) s (Suc p2))"
    using d(1) dot(1) by (intro ends_Plus_class_complete) (simp_all add: p4_def)
  have "\<forall>k. Suc p4 \<le> k \<and> k < length s \<longrightarrow> in_class (s ! k) tld_class"
  proof (intro allI impI)
    fix k assume k: "Suc p4 \<le> k \<and> k < length s"
    then have "s ! k = tld ! (k - Suc p4)" "k - Suc p4 < length tld"
      using len by (auto simp: s p2_def p4_def nth_append nth_Cons')
    with t(2) show "in_class (s ! k) tld_class" by (metis nth_mem)
  qed
  then have 3: "length s \<in> set (ends (Repeat 2 (CharClass tld_class)) s (Suc p4))"
    using t(1) len by (intro ends_Repeat2_class_complete) simp_all
  have 4: "length s \<in> set (ends EndText s (length s))" by simp
  have 0: "0 \<in> set (ends BeginText s 0)" by simp
  from 3 4 have "length s \<in> set (ends (Concat (Repeat 2 (CharClass tld_class)) EndText) s (Suc p4))"
    by (rule ends_ConcatI)
  with ends_LitI [OF dot]
  have "length s \<in> set (ends (Concat (Lit (CHR ''.''))
      (Concat (Repeat 2 (CharClass tld_class)) EndText)) s p4)"
    by (rule ends_ConcatI)
  with 2 have "length s \<in> set (ends (Concat (Plus (CharClass domain_class))
      (Concat (Lit (CHR ''.'')) (Concat (Repeat 2 (CharClass tld_class)) EndText))) s (Suc p2))"
    by (rule ends_ConcatI)
  with ends_LitI [OF at]
  have "length s \<in> set (ends (Concat (Lit (CHR ''@'')) (Concat (Plus (CharClass domain_class))
      (Concat (Lit (CHR ''.'')) (Concat (Repeat 2 (CharClass tld_class)) EndText)))) s p2)"
    by (rule ends_ConcatI)
  with 1 have "length s \<in> set (ends (Concat (Plus (CharClass local_class))
      (Concat (Lit (CHR ''@'')) (Concat (Plus (CharClass domain_class))
      (Concat (Lit (CHR ''.'')) (Concat (Repeat 2 (CharClass tld_class)) EndText))))) s 0)"
    by (rule ends_ConcatI)
  with 0 have "length s \<in> set (ends emailRegex s 0)"
    unfolding emailRegex_def local_class_def [symmetric] domain_class_def [symmetric]
      tld_class_def [symmetric]
    by (rule ends_ConcatI)
  then have "ends emailRegex s 0 \<noteq> []" by auto
  then show ?thesis
    unfolding isValidEmail_def MatchString_def list_ex_iff by (intro bexI [of _ 0]) simp_all
qed

text \<open>
  C10. \<open>isValidEmail\<close> is the match of \<open>emailRegex\<close> and nothing else: it accepts
  exactly the texts of the pattern's shape, whose letters are all lower-case. An address
  with an upper-case letter anywhere is rejected, \<open>User@example.com\<close> for one, while
  \<open>user@example.com\<close> is accepted.
\<close>

theorem isValidEmail_rejects_uppercase:
  "isValidEmail email = MatchString emailRegex email
   \<and> isValidEmail email = email_shape email
   \<and> ((\<exists>c \<in> set email. isUpper c) \<longrightarrow> \<not> isValidEmail email)
   \<and> \<not> isValidEmail ''User@example.com''
   \<and> isValidEmail ''user@example.com''"
proof -
  have upper: "(\<exists>c \<in> set email. isUpper c) \<longrightarrow> \<not> isValidEmail email"
    using isValidEmail_consumes [of email] emailRegex_no_upper by blast
  have shape: "isValidEmail email = email_shape email"
    using isValidEmail_shape [of email] email_shape_valid [of email] by blast
  have no: "\<not> isValidEmail ''User@example.com''" by code_simp
  have yes: "isValidEmail ''user@example.com''" by code_simp
  have "isValidEmail email = MatchString emailRegex email" by (simp add: isValidEmail_def)
  with upper shape no yes show ?thesis by blast
qed

theorem isValidEmail_rejects_uppercase_witness:
  "(\<exists>c \<in> set ''Ann@example.org''. isUpper c) \<and> \<not> isValidEmail ''Ann@example.org''"
proof -
  have "\<exists>c \<in> set ''Ann@example.org''. isUpper c" by (simp add: isUpper_def)
  with isValidEmail_rejects_uppercase [of "''Ann@example.org''"] show ?thesis by blast
qed

subsection \<open>Submitting the design\<close>

lemma generateDummyID_prefix: "HasPrefix (generateDummyID name now) ''offline-mode-''"
  by (simp add: generateDummyID_eq HasPrefix_def)

text \<open>
  C2, as stated, fails when the 30 second time-out of the client expires after the
  response arrived, while its body is read: \<open>io.ReadAll\<close> returns the error and
  \<open>CreateMesheryDesign\<close> of cmd.go returns \<open>ErrHTTPPostRequest\<close>, not an identifier.
\<close>

theorem CreateMesheryDesign_timeout_reading_body_counterexample:
  "answers (example_world (BodyReadError 200 [] timeout_reading_body))
     (design_request example_globals ''kind: Pod'' ''my app'' [])
     (BodyReadError 200 [] timeout_reading_body)
   \<and> CreateMesheryDesign example_globals
        (example_world (BodyReadError 200 [] timeout_reading_body)) ''kind: Pod'' ''my app'' []
      = Returns (Inl (ErrHTTPPostRequest timeout_reading_body))"
  by (simp add: CreateMesheryDesign_def answers_def Let_def example_world_def)

text \<open>
  C2, amended. When the request was built and \<open>client.Do\<close> itself fails (no connection,
  or the time-out before a response arrived), \<open>CreateMesheryDesign\<close> of cmd.go returns no
  error but the identifier \<open>offline-mode-\<close>, the sanitized name, a hyphen and the 14
  digits of the clock reading. When a response arrived and the reading of its body fails
  (the time-out during the read is one such failure), it returns \<open>ErrHTTPPostRequest\<close>
  with the error of the read.
\<close>

theorem CreateMesheryDesign_offline_on_transport_failure:
  assumes "wellformed_time (Now w)"
  shows "(answers w (design_request g manifest name email) (DoError err) \<longrightarrow>
            CreateMesheryDesign g w manifest name email
            = Returns (Inr (''offline-mode-'' @ sanitized name @ ''-'' @ civil_digits (Now w))))
         \<and> length (civil_digits (Now w)) = 14
         \<and> (\<forall>c \<in> set (civil_digits (Now w)). isDigit c)
         \<and> (answers w (design_request g manifest name email) (BodyReadError status part err)
              \<longrightarrow> CreateMesheryDesign g w manifest name email
                  = Returns (Inl (ErrHTTPPostRequest err)))"
proof -
  have civil: "Format_20060102150405 (Now w) = civil_digits (Now w)"
    using assms by (rule Format_civil)
  have offline: "CreateMesheryDesign g w manifest name email
      = Returns (Inr (''offline-mode-'' @ sanitized name @ ''-'' @ civil_digits (Now w)))"
    if "answers w (design_request g manifest name email) (DoError err)"
  proof -
    from that have "CreateMesheryDesign g w manifest name email
        = Returns (Inr (generateDummyID name (Now w)))"
      by (simp add: CreateMesheryDesign_def answers_def Let_def)
    then show ?thesis unfolding civil [symmetric] by (simp add: generateDummyID_eq sanitized_def)
  qed
  have failed: "CreateMesheryDesign g w manifest name email
      = Returns (Inl (ErrHTTPPostRequest err))"
    if "answers w (design_request g manifest name email) (BodyReadError status part err)"
    using that by (simp add: CreateMesheryDesign_def answers_def Let_def)
  have len: "length (civil_digits (Now w)) = 14"
    using Format_length [OF assms] by (simp only: civil)
  have dig: "\<forall>c \<in> set (civil_digits (Now w)). isDigit c"
    using Format_digits [of "Now w"] by (simp only: civil)
  from offline failed len dig show ?thesis by blast
qed

theorem CreateMesheryDesign_offline_on_transport_failure_witness:
  "wellformed_time (Now (example_world (DoError (SysError ''dial tcp: connection refused''))))
   \<and> answers (example_world (DoError (SysError ''dial tcp: connection refused'')))
        (design_request example_globals ''kind: Pod'' ''my app'' [])
        (DoError (SysError ''dial tcp: connection refused''))
   \<and> CreateMesheryDesign example_globals
        (example_world (DoError (SysError ''dial tcp: connection refused'')))
        ''kind: Pod'' ''my app'' []
      = Returns (Inr ''offline-mode-my-app-20240517090307'')
   \<and> wellformed_time (Now (example_world (BodyReadError 200 [] timeout_reading_body)))
   \<and> answers (example_world (BodyReadError 200 [] timeout_reading_body))
        (design_request example_globals ''kind: Pod'' ''my app'' [])
        (BodyReadError 200 [] timeout_reading_body)
   \<and> CreateMesheryDesign example_globals
        (example_world (BodyReadError 200 [] timeout_reading_body)) ''kind: Pod'' ''my app'' []
      = Returns (Inl (ErrHTTPPostRequest timeout_reading_body))"
proof -
  let ?w = "example_world (DoError (SysError ''dial tcp: connection refused''))"
  let ?v = "example_world (BodyReadError 200 [] timeout_reading_body)"
  have a: "answers ?w (design_request example_globals ''kind: Pod'' ''my app'' [])
     (DoError (SysError ''dial tcp: connection refused''))"
    by (simp add: answers_def example_world_def)
  have b: "wellformed_time (Now ?w)"
    by (simp add: example_world_def example_now_def wellformed_time_def)
  have c: "''offline-mode-'' @ sanitized ''my app'' @ ''-'' @ civil_digits (Now ?w)
      = ''offline-mode-my-app-20240517090307''"
    by (simp add: sanitized_def example_world_def example_now_def civil_digits_def
        four_digits_def two_digits_def)
  have a': "answers ?v (design_request example_globals ''kind: Pod'' ''my app'' [])
     (BodyReadError 200 [] timeout_reading_body)"
    by (simp add: answers_def example_world_def)
  have b': "wellformed_time (Now ?v)"
    by (simp add: example_world_def example_now_def wellformed_time_def)
  note at_w = CreateMesheryDesign_offline_on_transport_failure [OF b,
      where g = example_globals and manifest = "''kind: Pod''" and name = "''my app''"
        and email = "[]" and err = "SysError ''dial tcp: connection refused''"]
  note at_v = CreateMesheryDesign_offline_on_transport_failure [OF b',
      where g = example_globals and manifest = "''kind: Pod''" and name = "''my app''"
        and email = "[]" and err = timeout_reading_body and status = 200 and part = "[]"]
  from at_w [THEN conjunct1] a
  have "CreateMesheryDesign example_globals ?w ''kind: Pod'' ''my app'' []
      = Returns (Inr (''offline-mode-'' @ sanitized ''my app'' @ ''-'' @ civil_digits (Now ?w)))"
    by (rule mp)
  then have 1: "CreateMesheryDesign example_globals ?w ''kind: Pod'' ''my app'' []
      = Returns (Inr ''offline-mode-my-app-20240517090307'')"
    by (simp only: c)
  from at_v [THEN conjunct2, THEN conjunct2, THEN conjunct2] a'
  have 2: "CreateMesheryDesign example_globals ?v ''kind: Pod'' ''my app'' []
      = Returns (Inl (ErrHTTPPostRequest timeout_reading_body))"
    by (rule mp)
  from b a 1 b' a' 2 show ?thesis by (intro conjI)
qed

text \<open>
  C4. A response body that contains \<open><!DOCTYPE html>\<close> or \<open><html\<close> is taken for a
  redirect to the sign-in page, whatever its status code: the copy of cmd.go returns an
  offline identifier and no error, the strict copy returns the error
  \<open>ErrHTTPPostRequest\<close>; the JSON decoder \<open>dec\<close> has no part in either result.
\<close>

theorem CreateMesheryDesign_html_body:
  assumes "Contains body ''<!DOCTYPE html>'' \<or> Contains body ''<html''"
    and "answers w (design_request g manifest name email) (Response status body)"
    and "answers w (design_request_strict g manifest name email) (Response status' body)"
  shows "CreateMesheryDesign g (w\<lparr>json_decode := dec\<rparr>) manifest name email
           = Returns (Inr (generateDummyID name (Now w)))
         \<and> HasPrefix (generateDummyID name (Now w)) ''offline-mode-''
         \<and> CreateMesheryDesign_strict g (w\<lparr>json_decode := dec\<rparr>) manifest name email
           = Returns (Inl (ErrHTTPPostRequest (Errorf ''authentication failed'')))"
  using assms
  by (simp add: CreateMesheryDesign_def CreateMesheryDesign_strict_def answers_def Let_def
      generateDummyID_prefix)

theorem CreateMesheryDesign_html_body_witness:
  "Contains html_fixture ''<!DOCTYPE html>''
   \<and> answers (example_world (Response 200 html_fixture))
        (design_request example_globals ''kind: Pod'' ''my app'' []) (Response 200 html_fixture)
   \<and> answers (example_world (Response 200 html_fixture))
        (design_request_strict example_globals ''kind: Pod'' ''my app'' []) (Response 200 html_fixture)
   \<and> CreateMesheryDesign example_globals (example_world (Response 200 html_fixture))
        ''kind: Pod'' ''my app'' []
      = Returns (Inr ''offline-mode-my-app-20240517090307'')
   \<and> CreateMesheryDesign_strict example_globals (example_world (Response 200 html_fixture))
        ''kind: Pod'' ''my app'' []
      = Returns (Inl (ErrHTTPPostRequest (Errorf ''authentication failed'')))"
proof -
  let ?w = "example_world (Response 200 html_fixture)"
  have h: "Contains html_fixture ''<!DOCTYPE html>''"
    by (simp add: html_fixture_def HasPrefix_def)
  have a: "answers ?w (design_request example_globals ''kind: Pod'' ''my app'' [])
      (Response 200 html_fixture)"
    by (simp add: answers_def example_world_def)
  have b: "answers ?w (design_request_strict example_globals ''kind: Pod'' ''my app'' [])
      (Response 200 html_fixture)"
    by (simp add: answers_def example_world_def)
  have w: "?w\<lparr>json_decode := example_decode\<rparr> = ?w"
    by (simp add: example_world_def)
  have n: "generateDummyID ''my app'' (Now ?w) = ''offline-mode-my-app-20240517090307''"
    by (simp add: generateDummyID_eq example_world_def example_now_def Format_20060102150405_def
        appendInt_def showNat.simps digit_def)
  from CreateMesheryDesign_html_body [OF disjI1 [OF h] a b, of example_decode] h a b
  show ?thesis by (simp add: w n)
qed

text \<open>The first two shapes of the body yield the identifier.\<close>

lemma probe_id:
  "dec body = Inr (GMap m) \<Longrightarrow> map_of m ''id'' = Some (GString ident)
   \<Longrightarrow> probeDesignID dec body = Probed ident"
  by (simp add: probeDesignID_def Unmarshal_map_def index_map_def)

lemma probe_pattern_file:
  "dec body = Inr (GMap m) \<Longrightarrow> assertString (index_map m ''id'') = None
   \<Longrightarrow> map_of m ''pattern_file'' = Some (GMap pf) \<Longrightarrow> map_of pf ''id'' = Some (GString ident)
   \<Longrightarrow> probeDesignID dec body = Probed ident"
  by (simp add: probeDesignID_def Unmarshal_map_def index_map_def)

lemma probe_no_pattern_file:
  "dec body = Inr (GMap m) \<Longrightarrow> assertString (index_map m ''id'') = None
   \<Longrightarrow> map_of m ''pattern_file'' = None
   \<Longrightarrow> probeDesignID dec body
       = ProbePanics ''interface conversion: interface {} is nil, not map[string]interface {}''"
  by (simp add: probeDesignID_def Unmarshal_map_def index_map_def)

lemma no_html_in_bodies:
  "\<not> Contains body_id ''<!DOCTYPE html>''" "\<not> Contains body_id ''<html''"
  "\<not> Contains body_pattern_file ''<!DOCTYPE html>''" "\<not> Contains body_pattern_file ''<html''"
  "\<not> Contains body_pattern_id ''<!DOCTYPE html>''" "\<not> Contains body_pattern_id ''<html''"
  by (simp_all add: body_id_def body_pattern_file_def body_pattern_id_def HasPrefix_def)

lemma probe_id_bodies:
  assumes "(body = body_id \<and> dec body = Inr value_id)
           \<or> (body = body_pattern_file \<and> dec body = Inr value_pattern_file)"
  shows "probeDesignID dec body = Probed ''abc123''
         \<and> \<not> Contains body ''<!DOCTYPE html>'' \<and> \<not> Contains body ''<html''"
  using assms
proof
  assume "body = body_id \<and> dec body = Inr value_id"
  then show ?thesis
    using probe_id [of dec body "[(''id'', GString ''abc123'')]" "''abc123''"]
    by (auto simp: value_id_def no_html_in_bodies)
next
  assume "body = body_pattern_file \<and> dec body = Inr value_pattern_file"
  then show ?thesis
    using probe_pattern_file [of dec body
        "[(''pattern_file'', GMap [(''id'', GString ''abc123'')])]"
        "[(''id'', GString ''abc123'')]" "''abc123''"]
    by (auto simp: value_pattern_file_def no_html_in_bodies index_map_def)
qed

lemma CreateMesheryDesign_id_bodies:
  assumes "status = 200 \<or> status = 201"
    and "(body = body_id \<and> json_decode w body = Inr value_id)
         \<or> (body = body_pattern_file \<and> json_decode w body = Inr value_pattern_file)"
  shows "(answers w (design_request g manifest name email) (Response status body)
           \<longrightarrow> CreateMesheryDesign g w manifest name email = Returns (Inr ''abc123''))
         \<and> (answers w (design_request_strict g manifest name email) (Response status body)
           \<longrightarrow> CreateMesheryDesign_strict g w manifest name email = Returns (Inr ''abc123''))"
  using assms probe_id_bodies [of body "json_decode w"]
  by (auto simp: CreateMesheryDesign_def CreateMesheryDesign_strict_def answers_def Let_def)

text \<open>
  C1. On a response with status 200 or 201 whose body is \<open>{"pattern_id": "abc123"}\<close>,
  \<open>CreateMesheryDesign\<close> does not return \<open>abc123\<close>: the body has no \<open>pattern_file\<close>, the
  unchecked assertion of the second probe panics, and the third probe is never reached.
\<close>

theorem CreateMesheryDesign_pattern_id_panics:
  assumes "status = 200 \<or> status = 201"
    and "json_decode w body_pattern_id = Inr value_pattern_id"
  shows "(answers w (design_request g manifest name email) (Response status body_pattern_id)
           \<longrightarrow> CreateMesheryDesign g w manifest name email
               = Panics ''interface conversion: interface {} is nil, not map[string]interface {}'')
         \<and> (answers w (design_request_strict g manifest name email)
              (Response status body_pattern_id)
           \<longrightarrow> CreateMesheryDesign_strict g w manifest name email
               = Panics ''interface conversion: interface {} is nil, not map[string]interface {}'')"
proof -
  from assms(2) have "probeDesignID (json_decode w) body_pattern_id
      = ProbePanics ''interface conversion: interface {} is nil, not map[string]interface {}''"
    by (intro probe_no_pattern_file [where m = "[(''pattern_id'', GString ''abc123'')]"])
       (simp_all add: value_pattern_id_def index_map_def)
  with assms(1) no_html_in_bodies(5,6) show ?thesis
    by (auto simp: CreateMesheryDesign_def CreateMesheryDesign_strict_def answers_def Let_def)
qed

theorem CreateMesheryDesign_pattern_id_panics_witness:
  "json_decode (example_world (Response 200 body_pattern_id)) body_pattern_id = Inr value_pattern_id
   \<and> answers (example_world (Response 200 body_pattern_id))
        (design_request example_globals ''kind: Pod'' ''my app'' []) (Response 200 body_pattern_id)
   \<and> CreateMesheryDesign example_globals (example_world (Response 200 body_pattern_id))
        ''kind: Pod'' ''my app'' []
      = Panics ''interface conversion: interface {} is nil, not map[string]interface {}''
   \<and> answers (example_world (Response 200 body_pattern_id))
        (design_request_strict example_globals ''kind: Pod'' ''my app'' [])
        (Response 200 body_pattern_id)
   \<and> CreateMesheryDesign_strict example_globals (example_world (Response 200 body_pattern_id))
        ''kind: Pod'' ''my app'' []
      = Panics ''interface conversion: interface {} is nil, not map[string]interface {}''"
proof -
  let ?w = "example_world (Response 200 body_pattern_id)"
  have d: "json_decode ?w body_pattern_id = Inr value_pattern_id"
    by (simp add: example_world_def example_decode_def body_id_def body_pattern_file_def
        body_pattern_id_def)
  have a: "answers ?w (design_request example_globals ''kind: Pod'' ''my app'' [])
      (Response 200 body_pattern_id)"
    by (simp add: answers_def example_world_def)
  have b: "answers ?w (design_request_strict example_globals ''kind: Pod'' ''my app'' [])
      (Response 200 body_pattern_id)"
    by (simp add: answers_def example_world_def)
  have s: "(200::nat) = 200 \<or> (200::nat) = 201" by simp
  from CreateMesheryDesign_pattern_id_panics [OF s d, of example_globals "''kind: Pod''"
      "''my app''" "[]"] d a b
  show ?thesis by simp
qed

subsection \<open>Triggering the snapshot\<close>

text \<open>
  C5. With an empty access token \<open>GenerateSnapshot\<close> sends no request and returns
  \<open>nil\<close>, whatever the identifier and the asset location, in both copies.
\<close>

theorem GenerateSnapshot_empty_token:
  "GenerateSnapshot g w designID assetLocation [] = (None, [])
   \<and> GenerateSnapshot_strict g w designID assetLocation [] = (None, [])"
  by (simp add: GenerateSnapshot_def GenerateSnapshot_strict_def)

text \<open>
  C3, as stated, fails on the second copy of the command file, which has no guard for
  offline identifiers: with a token it sends the dispatch request for one.
\<close>

theorem GenerateSnapshot_strict_offline_counterexample:
  "HasPrefix ''offline-mode-my-app-20240517090307'' ''offline-mode-''
   \<and> GenerateSnapshot_strict example_globals (example_world (Response 204 []))
        ''offline-mode-my-app-20240517090307'' [] ''ghp_token''
      = (None, [dispatch_request example_globals ''offline-mode-my-app-20240517090307'' []
                  ''ghp_token''])"
  by (simp add: HasPrefix_def GenerateSnapshot_strict_def dispatch_workflow_def Let_def
      example_world_def)

text \<open>
  C3, amended. For an identifier that begins with \<open>offline-mode-\<close>, \<open>GenerateSnapshot\<close> of
  cmd.go sends no request and returns \<open>nil\<close> for every asset location and token; the
  second copy does so for the empty token, and with any other token goes on to the
  workflow dispatch.
\<close>

theorem GenerateSnapshot_offline_short_circuit:
  assumes "HasPrefix designID ''offline-mode-''"
  shows "GenerateSnapshot g w designID assetLocation token = (None, [])
         \<and> GenerateSnapshot_strict g w designID assetLocation []  = (None, [])
         \<and> (token \<noteq> [] \<longrightarrow>
              GenerateSnapshot_strict g w designID assetLocation token
              = dispatch_workflow g w designID assetLocation token)"
  using assms by (simp add: GenerateSnapshot_def GenerateSnapshot_strict_def)

theorem GenerateSnapshot_offline_short_circuit_witness:
  "HasPrefix ''offline-mode-my-app-20240517090307'' ''offline-mode-''
   \<and> GenerateSnapshot example_globals (example_world (Response 204 []))
        ''offline-mode-my-app-20240517090307'' ''https://example.org/a.png'' ''ghp_token''
      = (None, [])"
proof -
  have h: "HasPrefix ''offline-mode-my-app-20240517090307'' ''offline-mode-''"
    by (simp add: HasPrefix_def)
  from GenerateSnapshot_offline_short_circuit [OF h] h show ?thesis by simp
qed

lemma dispatch_workflow_cases:
  "dispatch_workflow g w designID assetLocation token = (r, calls) \<Longrightarrow>
     (r = None \<longleftrightarrow>
        NewRequest w (Method (dispatch_request g designID assetLocation token))
          (ReqURL (dispatch_request g designID assetLocation token)) = None
        \<and> (status_of (Do w (dispatch_request g designID assetLocation token)) = Some 200
           \<or> status_of (Do w (dispatch_request g designID assetLocation token)) = Some 204))
     \<and> (r \<noteq> None \<longrightarrow> (\<exists>cause. r = Some (ErrGeneratingSnapshot cause)))"
  by (auto simp: dispatch_workflow_def Let_def split: option.splits http_outcome.splits if_splits)

text \<open>
  C6. For an identifier without the offline prefix and a non-empty token,
  \<open>GenerateSnapshot\<close> returns an error exactly when the dispatch request cannot be built,
  or \<open>client.Do\<close> fails, or the response's status is neither 200 nor 204; the error is
  \<open>ErrGeneratingSnapshot\<close>; both copies agree.
\<close>

theorem GenerateSnapshot_error_iff:
  fixes g w designID assetLocation token
  defines "req \<equiv> dispatch_request g designID assetLocation token"
  defines "err \<equiv> fst (GenerateSnapshot g w designID assetLocation token)"
  assumes "\<not> HasPrefix designID ''offline-mode-''" and "token \<noteq> []"
  shows "(err \<noteq> None \<longleftrightarrow>
            NewRequest w (Method req) (ReqURL req) \<noteq> None
            \<or> (\<exists>e. Do w req = DoError e)
            \<or> (\<exists>status. status_of (Do w req) = Some status \<and> status \<noteq> 200 \<and> status \<noteq> 204))
         \<and> (err \<noteq> None \<longrightarrow> (\<exists>cause. err = Some (ErrGeneratingSnapshot cause)))
         \<and> fst (GenerateSnapshot_strict g w designID assetLocation token) = err"
proof -
  obtain r calls where d: "dispatch_workflow g w designID assetLocation token = (r, calls)"
    by (cases "dispatch_workflow g w designID assetLocation token")
  with assms(3,4) have e: "err = r" "fst (GenerateSnapshot_strict g w designID assetLocation token) = r"
    by (simp_all add: err_def GenerateSnapshot_def GenerateSnapshot_strict_def)
  from dispatch_workflow_cases [OF d] have
    1: "r = None \<longleftrightarrow> NewRequest w (Method req) (ReqURL req) = None
          \<and> (status_of (Do w req) = Some 200 \<or> status_of (Do w req) = Some 204)"
    and 2: "r \<noteq> None \<longrightarrow> (\<exists>cause. r = Some (ErrGeneratingSnapshot cause))"
    unfolding req_def by blast+
  have 3: "(\<exists>e. Do w req = DoError e) \<longleftrightarrow> status_of (Do w req) = None"
    by (cases "Do w req") simp_all
  from 1 3 have "r \<noteq> None \<longleftrightarrow>
            NewRequest w (Method req) (ReqURL req) \<noteq> None
            \<or> (\<exists>e. Do w req = DoError e)
            \<or> (\<exists>status. status_of (Do w req) = Some status \<and> status \<noteq> 200 \<and> status \<noteq> 204)"
    by (cases "status_of (Do w req)") auto
  with 2 e show ?thesis by simp
qed

theorem GenerateSnapshot_error_iff_witness:
  "\<not> HasPrefix ''design-42'' ''offline-mode-'' \<and> ''ghp_token'' \<noteq> []
   \<and> fst (GenerateSnapshot example_globals (example_world (Response 204 [])) ''design-42'' []
            ''ghp_token'') = None
   \<and> fst (GenerateSnapshot example_globals (example_world (Response 404 ''Not Found'')) ''design-42'' []
            ''ghp_token'')
      = Some (ErrGeneratingSnapshot (Errorf ''workflow trigger failed with status 404: Not Found''))"
proof -
  have h: "\<not> HasPrefix ''design-42'' ''offline-mode-''" "''ghp_token'' \<noteq> []"
    by (simp_all add: HasPrefix_def)
  have a: "fst (GenerateSnapshot example_globals (example_world (Response 204 [])) ''design-42'' []
            ''ghp_token'') = None"
    using GenerateSnapshot_error_iff [OF h, of example_globals "example_world (Response 204 [])" "[]"]
    by (simp add: example_world_def)
  have b: "fst (GenerateSnapshot example_globals (example_world (Response 404 ''Not Found'')) ''design-42'' []
            ''ghp_token'')
      = Some (ErrGeneratingSnapshot (Errorf ''workflow trigger failed with status 404: Not Found''))"
    by (simp add: GenerateSnapshot_def HasPrefix_def dispatch_workflow_def Let_def
        example_world_def showNat.simps digit_def)
  from h a b show ?thesis by simp
qed

subsection \<open>Collecting the manifests\<close>

lemma HasSuffix_iff: "HasSuffix s x \<longleftrightarrow> suffix x s"
proof
  assume "HasSuffix s x"
  then have "s = take (length s - length x) s @ x"
    by (metis HasSuffix_def append_take_drop_id)
  then show "suffix x s" by (metis suffixI)
next
  assume "suffix x s"
  then obtain p where "s = p @ x" by (auto simp: suffix_def)
  then show "HasSuffix s x" by (simp add: HasSuffix_def)
qed

lemma suffix_after_sep:
  assumes "c \<notin> set x"
  shows "suffix x (a @ c # b) \<longleftrightarrow> suffix x b"
proof
  assume "suffix x (a @ c # b)"
  then obtain p where "a @ c # b = p @ x" by (auto simp: suffix_def)
  with assms show "suffix x b"
    by (auto simp: append_eq_append_conv2 Cons_eq_append_conv append_eq_Cons_conv suffix_def)
next
  assume "suffix x b"
  then show "suffix x (a @ c # b)" by (metis suffix_Cons suffix_append)
qed

lemma toLowerByte_sep [simp]: "toLowerByte (CHR ''/'') = CHR ''/''"
  by (simp add: toLowerByte_def isUpper_def)

lemma yaml_path:
  "(HasSuffix (ToLower (Join dir name)) ''.yaml'' \<or> HasSuffix (ToLower (Join dir name)) ''.yml'')
     = yaml_name name"
  by (simp add: yaml_name_def HasSuffix_iff Join_def ToLower_def suffix_after_sep)

lemma Join_neq: "Join dir name \<noteq> dir"
  by (simp add: Join_def)

lemma walkFn_file:
  "\<not> IsDir node \<Longrightarrow> passable (name, node) \<Longrightarrow>
   walkFn dirPath recursive (Join dir name) node None acc = (None, acc @ manifest_of name node)"
  by (cases node) (auto simp: walkFn_def yaml_path manifest_of_def IsDir_def split: sum.splits)

lemma walk_names_flat:
  "flat_readable es \<Longrightarrow>
   walk_names (walkFn dirPath False) dirPath es acc = (None, acc @ root_level es)"
proof (induction es arbitrary: acc)
  case Nil
  show ?case by (simp add: root_level_def)
next
  case (Cons e es)
  obtain name node where e: "e = (name, node)" by (cases e)
  from Cons.prems e have p: "passable (name, node)" and r: "flat_readable es"
    by (simp_all add: flat_readable_def)
  have rl: "root_level (e # es) = (if IsDir node then [] else manifest_of name node) @ root_level es"
    by (simp add: root_level_def e)
  show ?case
  proof (cases node)
    case (File c)
    with p have "walk (walkFn dirPath False) (Join dirPath name) node acc
        = (None, acc @ manifest_of name node)"
      using walkFn_file [of node name dirPath False dirPath acc] by (simp add: IsDir_def)
    with File Cons.IH [OF r] rl show ?thesis by (simp add: e IsDir_def)
  next
    case (Symlink t)
    with p have "walk (walkFn dirPath False) (Join dirPath name) node acc
        = (None, acc @ manifest_of name node)"
      using walkFn_file [of node name dirPath False dirPath acc] by (simp add: IsDir_def)
    with Symlink Cons.IH [OF r] rl show ?thesis by (simp add: e IsDir_def)
  next
    case (Dir sub)
    have "walk (walkFn dirPath False) (Join dirPath name) (Dir sub) acc = (Some SkipDir, acc)"
      by (simp add: walkFn_def IsDir_def Join_neq)
    with Dir Cons.IH [OF r] rl show ?thesis by (simp add: e IsDir_def)
  next
    case (DirUnlistable x)
    with p show ?thesis by simp
  next
    case (NoLstat x)
    with p show ?thesis by simp
  qed
qed

lemma processDirectory_flat:
  "flat_readable es \<Longrightarrow> processDirectory (Dir es) dirPath False = (root_level es, None)"
  using walk_names_flat [of es dirPath "[]"]
  by (simp add: processDirectory_def Walk_def walkFn_def IsDir_def)

lemma walk_names_tree:
  "tree_readable es \<Longrightarrow>
   walk_names (walkFn dirPath True) dir es acc = (None, acc @ tree_level es)"
proof (induction es arbitrary: dir acc rule: tree_level.induct, goal_cases)
  case 1
  show ?case by simp
next
  case (2 name sub es dir acc)
  then show ?case by (simp add: walkFn_def IsDir_def)
next
  case (3 name r es dir acc)
  then have "walk (walkFn dirPath True) (Join dir name) (File r) acc
        = (None, acc @ manifest_of name (File r))"
    using walkFn_file [of "File r" name dirPath True dir acc] by (simp add: IsDir_def)
  with 3 show ?case by simp
next
  case (4 name t es dir acc)
  then have "walk (walkFn dirPath True) (Join dir name) (Symlink t) acc
        = (None, acc @ manifest_of name (Symlink t))"
    using walkFn_file [of "Symlink t" name dirPath True dir acc] by (simp add: IsDir_def)
  with 4 show ?case by simp
next
  case (5 name e es dir acc)
  then show ?case by simp
next
  case (6 name e es dir acc)
  then show ?case by simp
qed

lemma processDirectory_tree:
  "tree_readable es \<Longrightarrow> processDirectory (Dir es) dirPath True = (tree_level es, None)"
  using walk_names_tree [of es dirPath dirPath "[]"]
  by (simp add: processDirectory_def Walk_def walkFn_def IsDir_def)

lemma tree_readable_flat: "tree_readable es \<Longrightarrow> flat_readable es"
  by (induction es rule: tree_readable.induct) (simp_all add: flat_readable_def)

lemma root_level_Cons:
  "root_level ((name, node) # es)
     = (if IsDir node then [] else manifest_of name node) @ root_level es"
  by (simp add: root_level_def)

lemma tree_level_Cons:
  "tree_level ((name, node) # es)
     = (case node of Dir sub \<Rightarrow> tree_level sub | _ \<Rightarrow> manifest_of name node) @ tree_level es"
  by (cases node) simp_all

lemma root_level_subseq: "subseq (root_level es) (tree_level es)"
proof (induction es)
  case Nil
  show ?case by (simp add: root_level_def)
next
  case (Cons e es)
  obtain name node where e: "e = (name, node)" by (cases e)
  show ?case
  proof (cases "IsDir node")
    case True
    with Cons show ?thesis
      unfolding e root_level_Cons tree_level_Cons by (simp add: list_emb_append2)
  next
    case False
    then have "(case node of Dir sub \<Rightarrow> tree_level sub | _ \<Rightarrow> manifest_of name node)
        = manifest_of name node"
      by (cases node) (simp_all add: IsDir_def)
    with False Cons show ?thesis
      unfolding e root_level_Cons tree_level_Cons by (simp add: list_emb_append_mono)
  qed
qed


lemma toLowerByte_dot [simp]: "toLowerByte c = CHR ''.'' \<longleftrightarrow> c = CHR ''.''"
proof (cases "isUpper c")
  case False
  then show ?thesis by (simp add: toLowerByte_def)
next
  case True
  then have b: "65 \<le> (of_char c :: nat)" "(of_char c :: nat) \<le> 90" by (simp_all add: isUpper_def)
  have "char_of ((of_char c :: nat) + 32) \<noteq> CHR ''.''"
  proof
    assume "char_of ((of_char c :: nat) + 32) = CHR ''.''"
    then have "(of_char (char_of ((of_char c :: nat) + 32)) :: nat) = of_char (CHR ''.'')" by simp
    then have "((of_char c :: nat) + 32) mod 256 = 46" by simp
    with b show False by simp
  qed
  moreover from b have "c \<noteq> CHR ''.''" by auto
  ultimately show ?thesis using True by (simp add: toLowerByte_def)
qed

lemma suffix_dot:
  assumes "d \<notin> set s" "d \<notin> set y"
  shows "suffix (d # y) (p @ d # s) \<longleftrightarrow> s = y"
proof
  assume "suffix (d # y) (p @ d # s)"
  then obtain q where "p @ d # s = q @ d # y" by (auto simp: suffix_def)
  with assms show "s = y"
    by (auto simp: append_eq_append_conv2 Cons_eq_append_conv append_eq_Cons_conv)
next
  assume "s = y"
  then show "suffix (d # y) (p @ d # s)" by (simp add: suffix_def)
qed

lemma Ext_no_sep:
  assumes "\<forall>c \<in> set name. \<not> isSep c"
  shows "Ext name = (if CHR ''.'' \<in> set name
                     then CHR ''.'' # rev (takeWhile (\<lambda>c. c \<noteq> CHR ''.'') (rev name)) else [])"
proof -
  from assms have tw: "takeWhile (\<lambda>c. \<not> isSep c) (rev name) = rev name"
    by (simp add: takeWhile_eq_all_conv)
  show ?thesis unfolding Ext_def Let_def tw by simp
qed

lemma dot_in_ToLower: "CHR ''.'' \<in> set (ToLower s) \<longleftrightarrow> CHR ''.'' \<in> set s"
proof (induction s)
  case Nil
  show ?case by (simp add: ToLower_def)
next
  case (Cons c s)
  have "(CHR ''.'' = toLowerByte c) = (CHR ''.'' = c)"
    using toLowerByte_dot [of c] by (metis (full_types))
  with Cons show ?case by (simp add: ToLower_def)
qed

lemma yaml_name_iff_ext:
  assumes "\<forall>c \<in> set name. \<not> isSep c"
  shows "yaml_name name = yaml_ext name"
proof (cases "CHR ''.'' \<in> set name")
  case False
  then have "CHR ''.'' \<notin> set (ToLower name)" by (simp add: dot_in_ToLower)
  then have "\<not> suffix ''.yaml'' (ToLower name)" "\<not> suffix ''.yml'' (ToLower name)"
    by (auto simp: suffix_def)
  with False assms show ?thesis
    by (simp add: yaml_name_def yaml_ext_def Ext_no_sep HasSuffix_iff ToLower_def)
next
  case True
  then obtain p s where ps: "name = p @ CHR ''.'' # s" "CHR ''.'' \<notin> set s"
    by (meson split_list_last)
  then have "takeWhile (\<lambda>c. c \<noteq> CHR ''.'') (rev name) = rev s"
    by (auto simp: takeWhile_tail)
  with True assms have ext: "Ext name = CHR ''.'' # s" by (simp add: Ext_no_sep)
  from ps(2) have s: "CHR ''.'' \<notin> set (ToLower s)" by (simp add: dot_in_ToLower)
  have low: "ToLower name = ToLower p @ CHR ''.'' # ToLower s"
    by (simp add: ps(1) ToLower_def toLowerByte_def isUpper_def)
  have "suffix ''.yaml'' (ToLower name) \<longleftrightarrow> ToLower s = ''yaml''"
    unfolding low using s by (intro suffix_dot) simp_all
  moreover have "suffix ''.yml'' (ToLower name) \<longleftrightarrow> ToLower s = ''yml''"
    unfolding low using s by (intro suffix_dot) simp_all
  moreover have "ToLower (Ext name) = CHR ''.'' # ToLower s"
    by (simp add: ext ToLower_def toLowerByte_def isUpper_def)
  ultimately show ?thesis by (simp add: yaml_name_def yaml_ext_def HasSuffix_iff)
qed

lemma Stat_dir_ReadFile: "Stat t = Inr True \<Longrightarrow> ReadFile t = Inl (SysError ''is a directory'')"
  by (induction t) simp_all

lemma processDirectory_link:
  assumes "Stat t = Inr True"
  shows "fst (processDirectory (Symlink t) dirPath recursive) = []"
    and "\<not> yaml_name dirPath \<Longrightarrow> processDirectory (Symlink t) dirPath recursive = ([], None)"
  using Stat_dir_ReadFile [OF assms]
  by (simp_all add: processDirectory_def Walk_def walkFn_def IsDir_def yaml_name_def)

lemma walk_names_passable:
  assumes "passable (name, node)"
  shows "walk_names (walkFn dirPath False) dirPath ((name, node) # es) acc
         = walk_names (walkFn dirPath False) dirPath es
             (acc @ (if IsDir node then [] else manifest_of name node))"
proof (cases node)
  case (File c)
  with assms have "walk (walkFn dirPath False) (Join dirPath name) node acc
      = (None, acc @ manifest_of name node)"
    using walkFn_file [of node name dirPath False dirPath acc] by (simp add: IsDir_def)
  with File show ?thesis by (simp add: IsDir_def)
next
  case (Symlink t)
  with assms have "walk (walkFn dirPath False) (Join dirPath name) node acc
      = (None, acc @ manifest_of name node)"
    using walkFn_file [of node name dirPath False dirPath acc] by (simp add: IsDir_def)
  with Symlink show ?thesis by (simp add: IsDir_def)
next
  case (Dir sub)
  have "walk (walkFn dirPath False) (Join dirPath name) (Dir sub) acc = (Some SkipDir, acc)"
    by (simp add: walkFn_def IsDir_def Join_neq)
  with Dir show ?thesis by (simp add: IsDir_def)
next
  case (DirUnlistable x)
  with assms show ?thesis by simp
next
  case (NoLstat x)
  with assms show ?thesis by simp
qed

lemma walk_names_unlistable:
  "flat_readable pre \<Longrightarrow>
   walk_names (walkFn dirPath False) dirPath (pre @ (name, DirUnlistable e) # post) acc
   = (Some (Failure e), acc @ root_level pre)"
proof (induction pre arbitrary: acc)
  case Nil
  show ?case by (simp add: walkFn_def root_level_def)
next
  case (Cons p pre)
  obtain n node where p: "p = (n, node)" by (cases p)
  from Cons.prems p have ps: "passable (n, node)" and r: "flat_readable pre"
    by (simp_all add: flat_readable_def)
  show ?case
    unfolding p append_Cons walk_names_passable [OF ps] Cons.IH [OF r] root_level_Cons
    by simp
qed

lemma processDirectory_unlistable:
  "flat_readable pre \<Longrightarrow>
   processDirectory (Dir (pre @ (name, DirUnlistable e) # post)) dirPath False
   = (root_level pre, Some e)"
  using walk_names_unlistable [of pre dirPath name e post "[]"]
  by (simp add: processDirectory_def Walk_def walkFn_def IsDir_def)

lemmas eval_fs = HasSuffix_def ToLower_def toLowerByte_def isUpper_def yaml_name_def
  manifest_of_def root_level_def flat_readable_def IsDir_def char_of_def bit_0

text \<open>
  C7, as stated, fails on a directory with a subdirectory that cannot be listed:
  \<open>walk\<close> reads the names of a directory before it calls the walk function on it, the
  function returns the error of that read before it looks at \<open>recursive\<close>, and the
  collection fails though it was not to descend.
\<close>

theorem processDirectory_unlistable_counterexample:
  "processDirectory (Dir example_dir_locked) ''manifests'' False
     = ([''kind: Pod''], Some (SysError ''permission denied''))
   \<and> getManifestContents (Dir example_dir_locked) ''manifests'' False
     = Inl (ErrReadingManifestFile (SysError ''permission denied''))"
  by (simp add: example_dir_locked_def getManifestContents_def processDirectory_def Walk_def
      walkFn_def Join_def eval_fs)

text \<open>
  C7, amended. Take a path that is a directory itself, that is, for \<open>Lstat\<close>. When every
  entry of the directory can be passed (\<open>Lstat\<close> succeeds, no subdirectory is unlistable,
  matching files can be read), the collection without recursion returns the contents of
  the root-level files with a matching name, in the order of the entries, and nothing of
  what lies below a subdirectory. When that holds in the whole tree, the recursive
  collection returns the matching files of the tree in the order of the walk, the
  root-level ones among them in their order. A name matches when it ends,
  case-insensitively, in \<open>.yaml\<close> or \<open>.yml\<close>: for a file name, when its extension
  lower-cases to one of the two. A subdirectory that cannot be listed, after entries that
  can be passed, ends the collection without recursion with the error of the read.
  A path that is a symbolic link to a directory is a directory for \<open>os.Stat\<close>, hence for
  \<open>getManifestContents\<close>, but not for \<open>Walk\<close>, which visits the link alone: nothing is
  collected, with or without recursion.
\<close>

theorem processDirectory_collects:
  "(flat_readable es \<longrightarrow> processDirectory (Dir es) dirPath False = (root_level es, None))
   \<and> (tree_readable es \<longrightarrow>
        processDirectory (Dir es) dirPath True = (tree_level es, None)
        \<and> subseq (root_level es) (tree_level es))
   \<and> ((\<forall>c \<in> set name. \<not> isSep c) \<longrightarrow> yaml_name name = yaml_ext name)
   \<and> (flat_readable pre \<longrightarrow>
        processDirectory (Dir (pre @ (sub, DirUnlistable e) # post)) dirPath False
        = (root_level pre, Some e))
   \<and> (Stat t = Inr True \<longrightarrow>
        fst (processDirectory (Symlink t) dirPath recursive) = []
        \<and> (\<not> yaml_name dirPath \<longrightarrow>
             processDirectory (Symlink t) dirPath recursive = ([], None)))"
  by (simp add: processDirectory_flat processDirectory_tree root_level_subseq yaml_name_iff_ext
      processDirectory_unlistable processDirectory_link)

theorem processDirectory_collects_witness:
  "flat_readable example_dir \<and> tree_readable example_dir
   \<and> processDirectory (Dir example_dir) ''manifests'' False
       = ([''kind: Pod'', ''kind: Job''], None)
   \<and> processDirectory (Dir example_dir) ''manifests'' True
       = ([''kind: Pod'', ''kind: Service'', ''kind: Job''], None)
   \<and> yaml_name ''c.YML'' \<and> yaml_ext ''c.YML''
   \<and> flat_readable [(''a.yaml'', File (Inr ''kind: Pod''))]
   \<and> processDirectory (Dir example_dir_locked) ''manifests'' False
       = ([''kind: Pod''], Some (SysError ''permission denied''))
   \<and> Stat (Dir example_dir) = Inr True
   \<and> processDirectory (Symlink (Dir example_dir)) ''manifests'' False = ([], None)
   \<and> processDirectory (Symlink (Dir example_dir)) ''manifests'' True = ([], None)"
proof -
  have f: "flat_readable example_dir" by (simp add: example_dir_def eval_fs)
  have t: "tree_readable example_dir" by (simp add: example_dir_def eval_fs)
  have r: "root_level example_dir = [''kind: Pod'', ''kind: Job'']"
    by (simp add: example_dir_def eval_fs)
  have l: "tree_level example_dir = [''kind: Pod'', ''kind: Service'', ''kind: Job'']"
    by (simp add: example_dir_def eval_fs)
  have n: "\<forall>c \<in> set ''c.YML''. \<not> isSep c" "yaml_name ''c.YML''"
    by (simp_all add: isSep_def eval_fs)
  have p: "flat_readable [(''a.yaml'', File (Inr ''kind: Pod''))]"
    "root_level [(''a.yaml'', File (Inr ''kind: Pod''))] = [''kind: Pod'']"
    by (simp_all add: eval_fs)
  have k: "example_dir_locked = [(''a.yaml'', File (Inr ''kind: Pod''))]
      @ (''private'', DirUnlistable (SysError ''permission denied'')) # []"
    by (simp add: example_dir_locked_def)
  have s: "Stat (Dir example_dir) = Inr True" "\<not> yaml_name ''manifests''"
    by (simp_all add: eval_fs)
  note at_dir = processDirectory_collects [where es = example_dir and dirPath = "''manifests''"
      and name = "''c.YML''" and pre = "[(''a.yaml'', File (Inr ''kind: Pod''))]"
      and sub = "''private''" and e = "SysError ''permission denied''" and post = "[]"
      and t = "Dir example_dir"]
  from at_dir [where recursive = False] at_dir [where recursive = True] f t r l n p s
  show ?thesis unfolding k by simp
qed

lemma getManifestContents_dir:
  assumes "Stat node = Inr True"
  shows "(\<exists>e. getManifestContents node path recursive = Inl (ErrReadingManifestFile e))
         \<or> (\<exists>ms. ms \<noteq> [] \<and> getManifestContents node path recursive = Inr ms)"
proof -
  obtain ms err where p: "processDirectory node path recursive = (ms, err)"
    by (cases "processDirectory node path recursive")
  show ?thesis
  proof (cases err)
    case (Some e)
    with assms p show ?thesis by (simp add: getManifestContents_def)
  next
    case None
    with assms p show ?thesis by (cases "ms = []") (simp_all add: getManifestContents_def)
  qed
qed

text \<open>
  C8. A directory whose walk meets no error and no matching file makes
  \<open>getManifestContents\<close> fail with \<open>ErrReadingManifestFile\<close>; for a path that is a
  directory the result is that error or a non-empty list, never the empty list.
\<close>

theorem getManifestContents_no_manifests:
  "(flat_readable es \<and> root_level es = [] \<longrightarrow>
      getManifestContents (Dir es) path False
      = Inl (ErrReadingManifestFile (Errorf ''no YAML files found in the specified directory'')))
   \<and> (tree_readable es \<and> tree_level es = [] \<longrightarrow>
      getManifestContents (Dir es) path True
      = Inl (ErrReadingManifestFile (Errorf ''no YAML files found in the specified directory'')))
   \<and> (Stat node = Inr True \<longrightarrow>
        (\<exists>e. getManifestContents node path recursive = Inl (ErrReadingManifestFile e))
        \<or> (\<exists>ms. ms \<noteq> [] \<and> getManifestContents node path recursive = Inr ms))"
  using getManifestContents_dir [of node path recursive]
  by (simp add: getManifestContents_def processDirectory_flat processDirectory_tree)

theorem getManifestContents_no_manifests_witness:
  "flat_readable example_dir_no_yaml \<and> root_level example_dir_no_yaml = []
   \<and> getManifestContents (Dir example_dir_no_yaml) ''manifests'' False
      = Inl (ErrReadingManifestFile (Errorf ''no YAML files found in the specified directory''))
   \<and> tree_readable [] \<and> tree_level [] = []
   \<and> getManifestContents (Dir []) ''manifests'' True
      = Inl (ErrReadingManifestFile (Errorf ''no YAML files found in the specified directory''))"
proof -
  have f: "flat_readable example_dir_no_yaml" "root_level example_dir_no_yaml = []"
    by (simp_all add: example_dir_no_yaml_def eval_fs)
  from getManifestContents_no_manifests [of example_dir_no_yaml "''manifests''" "Dir []"]
    getManifestContents_no_manifests [of "[]" "''manifests''" "Dir []"] f
  show ?thesis by simp
qed

end
